theory Spec2Isabelle
  imports Complex_Main "HOL-Library.Multiset"
begin

section \<open>Data model (core/mixins.py, core/models.py, lookups/models.py)\<close>

text \<open>
  Every Django model row carries the automatic primary key; an instance that has never
  been written has \<open>pk = None\<close>. The abstract mixins of \<^verbatim>\<open>core/mixins.py\<close> are record
  extensions, stacked in one chain, so that a function written for a mixin applies to
  every model that inherits it. Points in time are natural numbers.
\<close>

type_synonym datetime = nat

record model_row =
  pk :: "nat option"

record TimestampMixin = model_row +
  created_at :: datetime
  updated_at :: datetime

record OrderedMixin = TimestampMixin +
  order :: nat

record NamedMixin = OrderedMixin +
  name :: string

record SlugMixin = NamedMixin +
  slug :: string

record Course = SlugMixin +
  description :: string
  is_published :: bool

text \<open>
  A foreign key holds the primary key of the row it points to. \<^verbatim>\<open>Module.course\<close> and
  \<^verbatim>\<open>Lesson.module\<close> are declared without \<^verbatim>\<open>null=True\<close>, so their columns are NOT NULL; a
  Python instance can still hold \<^verbatim>\<open>None\<close> there (a module built without course), which is
  why the fields are options and the constraint is checked when the row is written.
\<close>

record Module = SlugMixin +
  course :: "nat option"
  description :: string

record Lesson = SlugMixin +
  module :: "nat option"
  content :: string
  duration_seconds :: nat

text \<open>
  \<^verbatim>\<open>Enrollment\<close> and \<^verbatim>\<open>LessonProgress\<close> inherit the timestamps only.
  \<^verbatim>\<open>LessonProgress.user\<close> is NOT NULL as well, and \<^verbatim>\<open>mark_complete\<close> builds an instance with
  \<^verbatim>\<open>user=None\<close>, so the field is an option too. The other foreign keys are only ever read
  from stored rows or set from a stored row, and hold the key itself.
\<close>

record Enrollment = TimestampMixin +
  course :: nat
  user :: nat
  enrolled_at :: datetime

record LessonProgress = TimestampMixin +
  user :: "nat option"
  lesson :: nat
  completed :: bool
  completed_at :: "datetime option"

text \<open>
  \<^verbatim>\<open>Tag\<close> and \<^verbatim>\<open>Topic\<close> (lookups/models.py) add nothing to the four mixins. A user is a row
  of Django's \<^verbatim>\<open>auth.User\<close>, with the fields \<^verbatim>\<open>UserSerializer\<close> reads.
\<close>

type_synonym Tag = SlugMixin

type_synonym Topic = SlugMixin

record User = model_row +
  username :: string
  email :: string
  first_name :: string
  last_name :: string

text \<open>
  The store: one list of rows per table, in the order the rows were inserted. The three
  many-to-many tables hold pairs of a course key and a tag, topic or user key.
\<close>

record db =
  courses :: "Course list"
  modules :: "Module list"
  lessons :: "Lesson list"
  enrollments :: "Enrollment list"
  progress :: "LessonProgress list"
  tags :: "Tag list"
  topics :: "Topic list"
  users :: "User list"
  course_tags :: "(nat \<times> nat) list"
  course_topics :: "(nat \<times> nat) list"
  course_instructors :: "(nat \<times> nat) list"

text \<open>
  What a request can end with other than its response: \<^verbatim>\<open>Http404\<close>, the exceptions of the
  database layer, and a missing attribute. \<open>ValueError\<close> and \<open>DatabaseError\<close> are what
  \<^verbatim>\<open>save(update_fields=...)\<close> raises for an unknown field name or an instance without
  primary key, and for a primary key that is not in the table. \<open>Unauthorized\<close> is the error
  the specification names for an action without identity; no path of the views raises it.
\<close>

datatype error =
  NotFound | IntegrityError | MultipleObjectsReturned | DoesNotExist | AttributeError
  | ValueError | DatabaseError | Unauthorized


section \<open>Writing a row\<close>

text \<open>
  The write at the end of \<^verbatim>\<open>Model.save()\<close> called without \<^verbatim>\<open>update_fields\<close>: a row without
  a primary key is inserted under the next free key, a row with one replaces the stored
  row of that key (or is inserted when there is none). The database checks the row
  first: \<open>refused\<close> stands for the constraints on the row itself (NOT NULL, FOREIGN KEY,
  and whatever else the backend enforces on a single row, such as the length of a
  column), \<open>conflict\<close> for the uniqueness constraint of the table, which is checked
  against every other row. A violation is the database's \<^verbatim>\<open>IntegrityError\<close> and leaves the
  table as it was.
\<close>

definition next_pk :: "('a model_row_scheme) list \<Rightarrow> nat" where
  "next_pk tbl = Suc (fold (\<lambda>r k. case pk r of None \<Rightarrow> k | Some i \<Rightarrow> max i k) tbl 0)"

definition db_write ::
  "('a model_row_scheme \<Rightarrow> 'a model_row_scheme \<Rightarrow> bool) \<Rightarrow> ('a model_row_scheme \<Rightarrow> bool)
    \<Rightarrow> 'a model_row_scheme list \<Rightarrow> 'a model_row_scheme
    \<Rightarrow> error + ('a model_row_scheme \<times> 'a model_row_scheme list)" where
  "db_write conflict refused tbl inst =
     (if refused inst \<or> list_ex (\<lambda>r. pk r \<noteq> pk inst \<and> conflict r inst) tbl
      then Inl IntegrityError
      else case pk inst of
        None \<Rightarrow> (let i = inst\<lparr>pk := Some (next_pk tbl)\<rparr> in Inr (i, tbl @ [i]))
      | Some k \<Rightarrow>
          if list_ex (\<lambda>r. pk r = Some k) tbl
          then Inr (inst, map (\<lambda>r. if pk r = Some k then inst else r) tbl)
          else Inr (inst, tbl @ [inst]))"

text \<open>A foreign key \<open>k\<close> points into table \<open>tbl\<close>.\<close>

definition references :: "'a model_row_scheme list \<Rightarrow> nat \<Rightarrow> bool" where
  "references tbl k \<longleftrightarrow> list_ex (\<lambda>r. pk r = Some k) tbl"


section \<open>Lesson progress (core/signals.py)\<close>

text \<open>
  The \<^verbatim>\<open>pre_save\<close> receiver of \<^verbatim>\<open>LessonProgress\<close>. \<open>now\<close> is what \<^verbatim>\<open>timezone.now()\<close>
  returns during the call.
\<close>

definition set_completed_at_for_progress :: "datetime \<Rightarrow> LessonProgress \<Rightarrow> LessonProgress" where
  "set_completed_at_for_progress now inst =
     (if completed inst then
        (if completed_at inst = None then inst\<lparr>completed_at := Some now\<rparr> else inst)
      else
        (if completed_at inst \<noteq> None then inst\<lparr>completed_at := None\<rparr> else inst))"

text \<open>
  The constraints of the \<^verbatim>\<open>LessonProgress\<close> table: \<^verbatim>\<open>(user, lesson)\<close> is unique together;
  \<^verbatim>\<open>user\<close> is NOT NULL and references a user, \<^verbatim>\<open>lesson\<close> references a lesson.
\<close>

definition progress_conflict :: "LessonProgress \<Rightarrow> LessonProgress \<Rightarrow> bool" where
  "progress_conflict r inst \<longleftrightarrow>
     LessonProgress.user r = LessonProgress.user inst \<and> lesson r = lesson inst"

definition progress_refused :: "db \<Rightarrow> LessonProgress \<Rightarrow> bool" where
  "progress_refused d r \<longleftrightarrow>
     (case LessonProgress.user r of None \<Rightarrow> True | Some u \<Rightarrow> \<not> references (users d) u)
     \<or> \<not> references (lessons d) (lesson r)"

text \<open>
  \<^verbatim>\<open>LessonProgress.save()\<close> without \<^verbatim>\<open>update_fields\<close>: the \<^verbatim>\<open>pre_save\<close> signal runs first,
  then \<^verbatim>\<open>auto_now\<close> stamps \<^verbatim>\<open>updated_at\<close>, then the whole row is written. The result is the
  instance as it is after the call, which is the row as stored, and the new table.
\<close>

definition save_progress ::
  "datetime \<Rightarrow> db \<Rightarrow> LessonProgress \<Rightarrow> error + (LessonProgress \<times> LessonProgress list)" where
  "save_progress now d inst =
     (let inst1 = set_completed_at_for_progress now inst;
          inst2 = inst1\<lparr>updated_at := now\<rparr>
      in db_write progress_conflict (progress_refused d) (progress d) inst2)"


definition write_columns :: "string list \<Rightarrow> LessonProgress \<Rightarrow> LessonProgress \<Rightarrow> LessonProgress" where
  "write_columns fs inst r =
     r\<lparr>created_at := (if ''created_at'' \<in> set fs then created_at inst else created_at r),
       updated_at := (if ''updated_at'' \<in> set fs then updated_at inst else updated_at r),
       LessonProgress.user :=
         (if ''user'' \<in> set fs \<or> ''user_id'' \<in> set fs then LessonProgress.user inst
          else LessonProgress.user r),
       lesson := (if ''lesson'' \<in> set fs \<or> ''lesson_id'' \<in> set fs then lesson inst else lesson r),
       completed := (if ''completed'' \<in> set fs then completed inst else completed r),
       completed_at := (if ''completed_at'' \<in> set fs then completed_at inst else completed_at r)\<rparr>"





section \<open>Python floats\<close>

text \<open>
  \<^verbatim>\<open>completion_for\<close> computes with Python floats, which are IEEE 754 binary64 numbers.
  A float is modelled by the rational number it denotes, and every operation by the exact
  result rounded to the nearest binary64 value, ties to the even significand, which is
  what the hardware division and multiplication and CPython's \<^verbatim>\<open>int / int\<close> do.
  \<open>binary64\<close> is that rounding: \<open>ilog2\<close> finds the binary exponent \<open>e\<close> of the argument,
  the grid of representable values around it has step \<open>2 powi (e - 52)\<close> (53 significant
  bits), and never less than \<open>2 powi (- 1074)\<close> (the subnormal range). Overflow to
  infinity is not modelled: the arguments here are quotients of row counts times 100.
\<close>

function log2_int :: "int \<Rightarrow> int" where
  "log2_int n = (if n < 2 then 0 else 1 + log2_int (n div 2))"
  by pat_completeness auto
termination
  by (relation "measure nat") auto

declare log2_int.simps [simp del]

definition ilog2 :: "rat \<Rightarrow> int" where
  "ilog2 q = (if 1 \<le> q then log2_int \<lfloor>q\<rfloor> else - (log2_int (\<lceil>1 / q\<rceil> - 1) + 1))"

definition round_half_even :: "rat \<Rightarrow> int" where
  "round_half_even q =
     (let f = \<lfloor>q\<rfloor>; r = q - of_int f
      in if r < 1 / 2 then f else if 1 / 2 < r then f + 1 else if even f then f else f + 1)"

definition binary64 :: "rat \<Rightarrow> rat" where
  "binary64 q =
     (if q = 0 then 0
      else let e = ilog2 \<bar>q\<bar>; u = 2 powi (max (e - 52) (- 1074))
           in of_int (round_half_even (q / u)) * u)"

text \<open>
  The builtin \<^verbatim>\<open>round(x, ndigits)\<close> on a float: CPython rounds the exact value of \<open>x\<close>
  to \<open>ndigits\<close> decimal places, ties to even, and returns the float nearest to that
  decimal.
\<close>

definition py_round :: "rat \<Rightarrow> nat \<Rightarrow> rat" where
  "py_round x ndigits = binary64 (of_int (round_half_even (x * 10 ^ ndigits)) / 10 ^ ndigits)"


section \<open>Completion percentage (core/models.py)\<close>

text \<open>
  \<^verbatim>\<open>Course.total_lessons\<close> and \<^verbatim>\<open>Course.completion_for\<close>. A course and a user stand for
  their primary keys. The lookups \<^verbatim>\<open>module__course\<close> and \<^verbatim>\<open>lesson__module__course\<close> are
  inner joins along the foreign keys, and \<^verbatim>\<open>count()\<close> counts the joined rows. A join
  matches a foreign key with the primary key it equals; a key that is missing matches
  nothing.
\<close>

definition total_lessons :: "db \<Rightarrow> nat \<Rightarrow> nat" where
  "total_lessons d self =
     length [l. l \<leftarrow> lessons d, m \<leftarrow> modules d,
                pk m = module l \<and> module l \<noteq> None \<and> Module.course m = Some self]"

definition completion_for :: "db \<Rightarrow> nat \<Rightarrow> nat \<Rightarrow> rat" where
  "completion_for d self usr =
     (let total = total_lessons d self in
      if total = 0 then 0
      else
        let completed_count =
          length [p. p \<leftarrow> progress d, l \<leftarrow> lessons d, m \<leftarrow> modules d,
                     pk m = module l \<and> module l \<noteq> None \<and> pk l = Some (lesson p) \<and>
                     LessonProgress.user p = Some usr \<and> Module.course m = Some self \<and> completed p]
        in py_round (binary64 (binary64 (of_nat completed_count / of_nat total) * 100)) 2)"

text \<open>
  The two counts as the specification words them: the lessons under a course across all of
  its modules, and the completed progress rows of a user on those lessons.
\<close>

definition lessons_under :: "db \<Rightarrow> nat \<Rightarrow> Lesson set" where
  "lessons_under d c =
     {l \<in> set (lessons d).
        \<exists>m \<in> set (modules d). pk m = module l \<and> module l \<noteq> None \<and> Module.course m = Some c}"

definition completed_rows :: "db \<Rightarrow> nat \<Rightarrow> nat \<Rightarrow> LessonProgress set" where
  "completed_rows d c u =
     {p \<in> set (progress d). LessonProgress.user p = Some u \<and> completed p \<and>
        (\<exists>l \<in> lessons_under d c. pk l = Some (lesson p))}"

text \<open>Primary keys are unique within the tables the two queries read.\<close>

definition unique_pks :: "db \<Rightarrow> bool" where
  "unique_pks d \<longleftrightarrow>
     distinct (map pk (modules d)) \<and> distinct (map pk (lessons d)) \<and> distinct (map pk (progress d))"


section \<open>Marking a lesson complete (core/views.py)\<close>

text \<open>
  A request carries the identity of its caller: \<open>request_user = None\<close> is an anonymous
  request. A response body is a list of key and value pairs.
\<close>

record request =
  request_user :: "nat option"

type_synonym response = "(string \<times> string) list"

text \<open>
  \<^verbatim>\<open>LessonViewSet.get_queryset\<close>: on the nested route \<^verbatim>\<open>modules/<module_pk>/lessons\<close> the
  lessons are those of that module. \<^verbatim>\<open>get_object\<close> looks the primary key up in the
  queryset and ends the request with 404 when there is no such row.
\<close>

definition lesson_queryset :: "db \<Rightarrow> nat option \<Rightarrow> Lesson list" where
  "lesson_queryset d module_pk =
     (case module_pk of None \<Rightarrow> lessons d
      | Some k \<Rightarrow> filter (\<lambda>l. module l = Some k) (lessons d))"

definition get_object :: "'a model_row_scheme list \<Rightarrow> nat \<Rightarrow> error + 'a model_row_scheme" where
  "get_object qs k =
     (case filter (\<lambda>r. pk r = Some k) qs of
        [] \<Rightarrow> Inl NotFound
      | [r] \<Rightarrow> Inr r
      | _ \<Rightarrow> Inl MultipleObjectsReturned)"

text \<open>
  \<^verbatim>\<open>LessonProgress.objects.update_or_create(user=usr, lesson=lsn, defaults={"completed": True})\<close>:
  the row with that user and lesson is fetched; when there is none, a new instance with the
  lookup values and the defaults is saved; when there is one, the defaults are set on it and
  it is saved. Both saves are \<open>save_progress\<close>, so the \<^verbatim>\<open>pre_save\<close> receiver runs in both.
  A lookup \<^verbatim>\<open>user=None\<close> matches the rows whose user is NULL. The result is the object, the
  \<^verbatim>\<open>created\<close> flag and the new table. (Django from 4.2 on passes \<^verbatim>\<open>update_fields\<close> to the
  save of the update: the names in \<^verbatim>\<open>defaults\<close> and every field whose class has a
  \<^verbatim>\<open>pre_save\<close> of its own, which are the three \<^verbatim>\<open>DateTimeField\<close>s. That leaves out \<^verbatim>\<open>user\<close> and
  \<^verbatim>\<open>lesson\<close> only, which hold what was just read from the row, so the row stored is that of
  the full save.)
\<close>

definition update_or_create ::
  "datetime \<Rightarrow> db \<Rightarrow> nat option \<Rightarrow> nat
    \<Rightarrow> error + ((LessonProgress \<times> bool) \<times> LessonProgress list)" where
  "update_or_create now d usr lsn =
     (case filter (\<lambda>r. LessonProgress.user r = usr \<and> lesson r = lsn) (progress d) of
        [] \<Rightarrow>
          (case save_progress now d
                  \<lparr>pk = None, created_at = now, updated_at = now, LessonProgress.user = usr,
                   lesson = lsn, completed = True, completed_at = None\<rparr> of
             Inl e \<Rightarrow> Inl e
           | Inr (obj, tbl') \<Rightarrow> Inr ((obj, True), tbl'))
      | [obj] \<Rightarrow>
          (case save_progress now d (obj\<lparr>completed := True\<rparr>) of
             Inl e \<Rightarrow> Inl e
           | Inr (obj', tbl') \<Rightarrow> Inr ((obj', False), tbl'))
      | _ \<Rightarrow> Inl MultipleObjectsReturned)"

text \<open>
  \<^verbatim>\<open>LessonViewSet.mark_complete\<close>, the handler of \<^verbatim>\<open>POST lessons/<pk>/mark-complete\<close>. The
  view never reads the request's user: it calls \<^verbatim>\<open>update_or_create\<close> with \<^verbatim>\<open>user=None\<close>.
  The result is what the request ends with and the store after it; a request that ends
  with an error leaves the store unchanged.
\<close>

definition mark_complete ::
  "datetime \<Rightarrow> db \<Rightarrow> request \<Rightarrow> nat option \<Rightarrow> nat \<Rightarrow> (error + response) \<times> db" where
  "mark_complete now d req module_pk k =
     (case get_object (lesson_queryset d module_pk) k of
        Inl e \<Rightarrow> (Inl e, d)
      | Inr lsn \<Rightarrow>
          (case update_or_create now d None k of
             Inl e \<Rightarrow> (Inl e, d)
           | Inr (_, tbl') \<Rightarrow> (Inr [(''status'', ''completed'')], d\<lparr>progress := tbl'\<rparr>)))"

text \<open>The progress rows of one user and lesson.\<close>

definition progress_rows :: "LessonProgress list \<Rightarrow> nat option \<Rightarrow> nat \<Rightarrow> LessonProgress list" where
  "progress_rows tbl usr lsn = filter (\<lambda>r. LessonProgress.user r = usr \<and> lesson r = lsn) tbl"

text \<open>
  A stored table: every row has a primary key and no two rows share one.
\<close>

definition stored_keys_ok :: "'a model_row_scheme list \<Rightarrow> bool" where
  "stored_keys_ok tbl \<longleftrightarrow> distinct (map pk tbl) \<and> list_all (\<lambda>r. pk r \<noteq> None) tbl"


section \<open>Deleting a course (core/models.py, core/views.py)\<close>

text \<open>
  The foreign keys \<^verbatim>\<open>Module.course\<close>, \<^verbatim>\<open>Lesson.module\<close>, \<^verbatim>\<open>Enrollment.course\<close> and
  \<^verbatim>\<open>LessonProgress.lesson\<close> are declared \<^verbatim>\<open>on_delete=models.CASCADE\<close>. \<^verbatim>\<open>Course.delete()\<close>
  therefore collects, along these keys, the modules of the course, the lessons of those
  modules, the progress rows of those lessons and the enrollments of the course, and
  deletes the collected rows by primary key together with the course and its rows in the
  many-to-many tables.
\<close>

definition delete_course :: "nat \<Rightarrow> db \<Rightarrow> db" where
  "delete_course k d =
     (let ms = filter (\<lambda>m. Module.course m = Some k) (modules d);
          ls = filter (\<lambda>l. module l \<noteq> None \<and> module l \<in> set (map pk ms)) (lessons d);
          ps = filter (\<lambda>p. Some (lesson p) \<in> set (map pk ls)) (progress d);
          es = filter (\<lambda>e. Enrollment.course e = k) (enrollments d)
      in d\<lparr>courses := filter (\<lambda>c. pk c \<noteq> Some k) (courses d),
            modules := filter (\<lambda>m. pk m \<notin> set (map pk ms)) (modules d),
            lessons := filter (\<lambda>l. pk l \<notin> set (map pk ls)) (lessons d),
            progress := filter (\<lambda>p. pk p \<notin> set (map pk ps)) (progress d),
            enrollments := filter (\<lambda>e. pk e \<notin> set (map pk es)) (enrollments d),
            course_tags := filter (\<lambda>(c, t). c \<noteq> k) (course_tags d),
            course_topics := filter (\<lambda>(c, t). c \<noteq> k) (course_topics d),
            course_instructors := filter (\<lambda>(c, u). c \<noteq> k) (course_instructors d)\<rparr>)"

text \<open>
  \<^verbatim>\<open>DELETE courses/<pk>\<close> (\<^verbatim>\<open>CourseViewSet\<close> is a \<^verbatim>\<open>ModelViewSet\<close>): 404 when there is no such
  course, otherwise the course is deleted.
\<close>

definition destroy_course :: "db \<Rightarrow> nat \<Rightarrow> (error + unit) \<times> db" where
  "destroy_course d k =
     (case get_object (courses d) k of
        Inl e \<Rightarrow> (Inl e, d)
      | Inr c \<Rightarrow> (Inr (), delete_course k d))"


section \<open>Slug assignment (core/mixins.py)\<close>

text \<open>
  \<^verbatim>\<open>str(i)\<close> for a natural number and the candidate \<^verbatim>\<open>f"{base}-{i}"\<close>.
\<close>

definition digit_char :: "nat \<Rightarrow> char" where
  "digit_char n = ''0123456789'' ! n"

function str_nat :: "nat \<Rightarrow> string" where
  "str_nat n = (if n < 10 then [digit_char n] else str_nat (n div 10) @ [digit_char (n mod 10)])"
  by pat_completeness auto
termination
  by (relation "measure id") auto

declare str_nat.simps [simp del]

definition suffixed :: "string \<Rightarrow> nat \<Rightarrow> string" where
  "suffixed base i = base @ ''-'' @ str_nat i"

text \<open>
  The loop of \<^verbatim>\<open>SlugMixin.save\<close>: \<open>taken\<close> are the slugs the query
  \<^verbatim>\<open>Model.objects.filter(slug=candidate).exclude(pk=self.pk)\<close> can find, \<open>i\<close> is the next
  suffix. The query ranges over all rows of the model; it is not restricted to the parent
  of a module or lesson. The loop ends because distinct numbers give distinct candidates,
  so only finitely many candidates from \<open>i\<close> on are in the table.
\<close>

function unique_candidate :: "string list \<Rightarrow> string \<Rightarrow> nat \<Rightarrow> string \<Rightarrow> string" where
  "unique_candidate taken base i candidate =
     (if candidate \<in> set taken then unique_candidate taken base (i + 1) (suffixed base i)
      else candidate)"
  by pat_completeness auto
termination
proof (relation "measure (\<lambda>(taken, base, i, candidate).
          card {j. i \<le> j \<and> suffixed base j \<in> set taken} + (if candidate \<in> set taken then 1 else 0))")
  show "wf (measure (\<lambda>(taken, base, i, candidate).
          card {j. i \<le> j \<and> suffixed base j \<in> set taken} + (if candidate \<in> set taken then 1 else 0)))"
    by simp
next
  fix taken :: "string list" and base :: string and i :: nat and candidate :: string
  assume c: "candidate \<in> set taken"
  let ?A = "{j. i \<le> j \<and> suffixed base j \<in> set taken}"
  let ?B = "{j. i + 1 \<le> j \<and> suffixed base j \<in> set taken}"
  have digit_inj: "m = n" if "m < 10" "n < 10" "digit_char m = digit_char n" for m n
  proof -
    have "distinct ''0123456789''" by simp
    with that show ?thesis by (simp add: digit_char_def nth_eq_iff_index_eq)
  qed
  have nonempty: "str_nat n \<noteq> []" for n
    by (subst str_nat.simps) simp
  have inj: "m = n" if "str_nat m = str_nat n" for m n
    using that
  proof (induction m arbitrary: n rule: str_nat.induct)
    case (1 m)
    show ?case
    proof (cases "m < 10")
      case True
      show ?thesis
      proof (cases "n < 10")
        case nT: True
        with True "1.prems" show ?thesis
          by (subst (asm) (1 2) str_nat.simps) (simp add: digit_inj)
      next
        case False
        with True "1.prems" nonempty[of "n div 10"] show ?thesis
          by (subst (asm) (1 2) str_nat.simps) (simp add: Cons_eq_append_conv)
      qed
    next
      case False
      show ?thesis
      proof (cases "n < 10")
        case True
        with False "1.prems" nonempty[of "m div 10"] show ?thesis
          by (subst (asm) (1 2) str_nat.simps) (simp add: append_eq_Cons_conv)
      next
        case nF: False
        from False nF "1.prems"
        have eq: "str_nat (m div 10) = str_nat (n div 10)"
          "digit_char (m mod 10) = digit_char (n mod 10)"
          by (subst (asm) (1 2) str_nat.simps, simp)+
        from "1.IH"[OF False eq(1)] have "m div 10 = n div 10" .
        moreover from eq(2) have "m mod 10 = n mod 10" by (intro digit_inj) simp_all
        ultimately show ?thesis by (metis div_mult_mod_eq)
      qed
    qed
  qed
  have hits: "finite {j. k \<le> j \<and> suffixed base j \<in> set taken}" for k
  proof -
    have "{j. k \<le> j \<and> suffixed base j \<in> set taken} \<subseteq> suffixed base -` set taken" by auto
    moreover have "finite (suffixed base -` set taken)"
      by (rule finite_vimageI) (auto simp: inj_on_def suffixed_def dest: inj)
    ultimately show ?thesis by (rule finite_subset)
  qed
  have fin: "finite ?A" "finite ?B" by (rule hits)+
  have "card ?B + (if suffixed base i \<in> set taken then 1 else 0) = card ?A"
  proof (cases "suffixed base i \<in> set taken")
    case True
    then have "?A = insert i ?B" by (auto simp: le_Suc_eq)
    moreover have "i \<notin> ?B" by simp
    ultimately show ?thesis using fin True by simp
  next
    case False
    then have "?A = ?B" by (auto simp: Suc_le_eq le_less)
    with False show ?thesis by simp
  qed
  with c show "((taken, base, i + 1, suffixed base i), (taken, base, i, candidate))
      \<in> measure (\<lambda>(taken, base, i, candidate).
          card {j. i \<le> j \<and> suffixed base j \<in> set taken} + (if candidate \<in> set taken then 1 else 0))"
    by simp
qed

declare unique_candidate.simps [simp del]

text \<open>The candidates in the order the loop tries them: \<open>base\<close>, \<open>base-2\<close>, \<open>base-3\<close>, ...\<close>

definition candidate_no :: "string \<Rightarrow> nat \<Rightarrow> string" where
  "candidate_no base n = (if n = 1 then base else suffixed base n)"

text \<open>
  \<^verbatim>\<open>SlugMixin.save\<close>, called without arguments as the creation of an entity does
  (\<^verbatim>\<open>serializer.save()\<close> in \<^verbatim>\<open>perform_create\<close>).
  \<open>slugify\<close> stands for \<^verbatim>\<open>django.utils.text.slugify\<close>, which is not part of the
  repository: the definitions take it as an argument (\<open>slugify_ascii\<close> below is that
  function on ASCII text). Its result is ASCII, so \<^verbatim>\<open>[:200]\<close> is \<open>take 200\<close>. \<open>assign_slug\<close>
  is the body before \<^verbatim>\<open>super().save()\<close>. The write stamps \<^verbatim>\<open>updated_at\<close> and is checked
  by the database: \<open>slug_conflict\<close> is \<^verbatim>\<open>unique=True\<close> of the slug field (which implies
  \<^verbatim>\<open>unique_together\<close> with the parent for modules and lessons), \<open>refused\<close> stands for the
  other constraints of the model's table, which the mixin does not know: the parent of a
  module or lesson (\<open>module_refused\<close>, \<open>lesson_refused\<close>), and the length of a column
  where the backend enforces it.
\<close>

definition slug_base :: "(string \<Rightarrow> string) \<Rightarrow> 'a SlugMixin_scheme \<Rightarrow> string" where
  "slug_base slugify self = take 200 (slugify (name self))"

definition taken_slugs :: "'a SlugMixin_scheme list \<Rightarrow> 'a SlugMixin_scheme \<Rightarrow> string list" where
  "taken_slugs tbl self = map slug (filter (\<lambda>r. pk r \<noteq> pk self) tbl)"

definition assign_slug ::
  "(string \<Rightarrow> string) \<Rightarrow> 'a SlugMixin_scheme list \<Rightarrow> 'a SlugMixin_scheme \<Rightarrow> 'a SlugMixin_scheme" where
  "assign_slug slugify tbl self =
     (if slug self = [] then
        (let source = name self in
         if source \<noteq> [] then
           (let base = slug_base slugify self
            in self\<lparr>slug := unique_candidate (taken_slugs tbl self) base 2 base\<rparr>)
         else self)
      else self)"

definition slug_conflict :: "'a SlugMixin_scheme \<Rightarrow> 'a SlugMixin_scheme \<Rightarrow> bool" where
  "slug_conflict r inst \<longleftrightarrow> slug r = slug inst"

definition SlugMixin_save ::
  "(string \<Rightarrow> string) \<Rightarrow> datetime \<Rightarrow> ('a SlugMixin_scheme \<Rightarrow> bool) \<Rightarrow> 'a SlugMixin_scheme list
    \<Rightarrow> 'a SlugMixin_scheme \<Rightarrow> error + ('a SlugMixin_scheme \<times> 'a SlugMixin_scheme list)" where
  "SlugMixin_save slugify now refused tbl self =
     db_write slug_conflict refused tbl ((assign_slug slugify tbl self)\<lparr>updated_at := now\<rparr>)"

text \<open>
  The saves of the models of \<^verbatim>\<open>core/models.py\<close>. \<^verbatim>\<open>Module.course\<close> and \<^verbatim>\<open>Lesson.module\<close> are
  NOT NULL foreign keys: the database refuses a module without course or with a course
  that is not stored, and a lesson likewise. A course has no such column.
\<close>

definition module_refused :: "db \<Rightarrow> Module \<Rightarrow> bool" where
  "module_refused d m \<longleftrightarrow>
     (case Module.course m of None \<Rightarrow> True | Some k \<Rightarrow> \<not> references (courses d) k)"

definition lesson_refused :: "db \<Rightarrow> Lesson \<Rightarrow> bool" where
  "lesson_refused d l \<longleftrightarrow>
     (case module l of None \<Rightarrow> True | Some k \<Rightarrow> \<not> references (modules d) k)"

definition save_course ::
  "(string \<Rightarrow> string) \<Rightarrow> datetime \<Rightarrow> db \<Rightarrow> Course \<Rightarrow> error + (Course \<times> Course list)" where
  "save_course slugify now d c = SlugMixin_save slugify now (\<lambda>r. False) (courses d) c"

definition save_module ::
  "(string \<Rightarrow> string) \<Rightarrow> datetime \<Rightarrow> db \<Rightarrow> Module \<Rightarrow> error + (Module \<times> Module list)" where
  "save_module slugify now d m = SlugMixin_save slugify now (module_refused d) (modules d) m"

definition save_lesson ::
  "(string \<Rightarrow> string) \<Rightarrow> datetime \<Rightarrow> db \<Rightarrow> Lesson \<Rightarrow> error + (Lesson \<times> Lesson list)" where
  "save_lesson slugify now d l = SlugMixin_save slugify now (lesson_refused d) (lessons d) l"

text \<open>
  The one save of the repository that passes \<^verbatim>\<open>update_fields\<close> is that of
  \<^verbatim>\<open>CourseViewSet.publish\<close>, \<^verbatim>\<open>course.save(update_fields=["is_published"])\<close>. The body of
  \<^verbatim>\<open>SlugMixin.save\<close> runs on the instance as always, but the \<^verbatim>\<open>UPDATE\<close> sets the column
  \<^verbatim>\<open>is_published\<close> of the stored course and no other: neither a slug assigned on the
  instance nor \<^verbatim>\<open>updated_at\<close> reaches the table.
\<close>

definition publish :: "db \<Rightarrow> nat \<Rightarrow> (error + response) \<times> db" where
  "publish d k =
     (case get_object (courses d) k of
        Inl e \<Rightarrow> (Inl e, d)
      | Inr obj \<Rightarrow>
          (Inr [(''status'', ''published'')],
           d\<lparr>courses := map (\<lambda>c. if pk c = Some k then c\<lparr>is_published := True\<rparr> else c)
                          (courses d)\<rparr>))"

text \<open>
  \<^verbatim>\<open>django.utils.text.slugify\<close> on ASCII text, used to run the definitions on examples:
  lower case, drop every character that is not alphanumeric, underscore, white space or
  hyphen, replace each run of white space and hyphens by one hyphen, strip leading and
  trailing hyphens and underscores. (Django first decomposes characters outside ASCII;
  here they are dropped.) \<open>slug_char\<close> are the characters a slug is made of: lower-case
  letters, digits, underscore and hyphen.
\<close>

definition slug_char :: "char \<Rightarrow> bool" where
  "slug_char c \<longleftrightarrow> c \<in> set ''abcdefghijklmnopqrstuvwxyz0123456789_-''"

definition ascii_lower :: "char \<Rightarrow> char" where
  "ascii_lower c =
     (case map_of (zip ''ABCDEFGHIJKLMNOPQRSTUVWXYZ'' ''abcdefghijklmnopqrstuvwxyz'') c of
        Some l \<Rightarrow> l | None \<Rightarrow> c)"

definition is_word_char :: "char \<Rightarrow> bool" where
  "is_word_char c \<longleftrightarrow> c \<in> set ''abcdefghijklmnopqrstuvwxyzABCDEFGHIJKLMNOPQRSTUVWXYZ0123456789_''"

definition is_space_char :: "char \<Rightarrow> bool" where
  "is_space_char c \<longleftrightarrow>
     c \<in> set [CHR '' '', CHR 0x09, CHR 0x0A, CHR 0x0B, CHR 0x0C, CHR 0x0D,
               CHR 0x1C, CHR 0x1D, CHR 0x1E, CHR 0x1F]"

definition is_separator :: "char \<Rightarrow> bool" where
  "is_separator c \<longleftrightarrow> c = CHR ''-'' \<or> is_space_char c"

function collapse_separators :: "string \<Rightarrow> string" where
  "collapse_separators [] = []"
| "collapse_separators (c # cs) =
     (if is_separator c then CHR ''-'' # collapse_separators (dropWhile is_separator cs)
      else c # collapse_separators cs)"
  by pat_completeness auto
termination
  by (relation "measure length") (auto simp: length_dropWhile_le less_Suc_eq_le)

definition strip_chars :: "(char \<Rightarrow> bool) \<Rightarrow> string \<Rightarrow> string" where
  "strip_chars P s = rev (dropWhile P (rev (dropWhile P s)))"

definition slugify_ascii :: "string \<Rightarrow> string" where
  "slugify_ascii s =
     strip_chars (\<lambda>c. c = CHR ''-'' \<or> c = CHR ''_'')
       (collapse_separators
         (filter (\<lambda>c. is_word_char c \<or> is_space_char c \<or> c = CHR ''-'') (map ascii_lower s)))"


section \<open>Default ordering (core/mixins.py, core/models.py, core/views.py)\<close>

text \<open>
  The class statements of the models, as far as they decide \<^verbatim>\<open>Meta.ordering\<close>: the bases of
  each class in their order, and the inner \<^verbatim>\<open>class Meta\<close> where one is written, with the
  class it extends and the \<^verbatim>\<open>ordering\<close> it sets. Only \<^verbatim>\<open>OrderedMixin.Meta\<close> sets an ordering;
  \<^verbatim>\<open>Module\<close> and \<^verbatim>\<open>Lesson\<close> declare \<^verbatim>\<open>class Meta(OrderedMixin.Meta)\<close>; \<^verbatim>\<open>Course\<close>, \<^verbatim>\<open>Tag\<close> and
  \<^verbatim>\<open>Topic\<close> declare no \<^verbatim>\<open>Meta\<close>.
\<close>

datatype meta_decl = Meta (meta_parent: "string option") (meta_ordering: "string list option")

record class_decl =
  class_bases :: "string list"
  class_meta :: "meta_decl option"

definition mixin_bases :: "string list" where
  "mixin_bases = [''TimestampMixin'', ''OrderedMixin'', ''NamedMixin'', ''SlugMixin'']"

definition model_classes :: "(string \<times> class_decl) list" where
  "model_classes = [
     (''TimestampMixin'', \<lparr>class_bases = [], class_meta = Some (Meta None None)\<rparr>),
     (''OrderedMixin'', \<lparr>class_bases = [], class_meta = Some (Meta None (Some [''order'']))\<rparr>),
     (''NamedMixin'', \<lparr>class_bases = [], class_meta = Some (Meta None None)\<rparr>),
     (''SlugMixin'', \<lparr>class_bases = [], class_meta = Some (Meta None None)\<rparr>),
     (''Course'', \<lparr>class_bases = mixin_bases, class_meta = None\<rparr>),
     (''Module'', \<lparr>class_bases = mixin_bases, class_meta = Some (Meta (Some ''OrderedMixin'') None)\<rparr>),
     (''Lesson'', \<lparr>class_bases = mixin_bases, class_meta = Some (Meta (Some ''OrderedMixin'') None)\<rparr>),
     (''Enrollment'', \<lparr>class_bases = [''TimestampMixin''], class_meta = Some (Meta None None)\<rparr>),
     (''LessonProgress'', \<lparr>class_bases = [''TimestampMixin''], class_meta = Some (Meta None None)\<rparr>),
     (''Tag'', \<lparr>class_bases = mixin_bases, class_meta = None\<rparr>),
     (''Topic'', \<lparr>class_bases = mixin_bases, class_meta = None\<rparr>)]"

text \<open>
  A class without its own \<^verbatim>\<open>Meta\<close> gets the attribute by Python's name resolution, from the
  first base that has one; Django reads the options of a model from that class. An
  attribute a \<^verbatim>\<open>Meta\<close> does not set is inherited from the \<^verbatim>\<open>Meta\<close> it extends. A model with
  no \<^verbatim>\<open>ordering\<close> has the empty default ordering.
\<close>

definition declared_meta :: "string \<Rightarrow> meta_decl option" where
  "declared_meta cls = Option.bind (map_of model_classes cls) class_meta"

definition resolve_meta :: "string \<Rightarrow> meta_decl option" where
  "resolve_meta cls =
     (case map_of model_classes cls of
        None \<Rightarrow> None
      | Some c \<Rightarrow>
          (case class_meta c of
             Some m \<Rightarrow> Some m
           | None \<Rightarrow>
               (case List.map_filter declared_meta (class_bases c) of
                  [] \<Rightarrow> None
                | m # _ \<Rightarrow> Some m)))"

definition ordering_of_meta :: "meta_decl \<Rightarrow> string list" where
  "ordering_of_meta m =
     (case meta_ordering m of
        Some keys \<Rightarrow> keys
      | None \<Rightarrow>
          (case Option.bind (meta_parent m) declared_meta of
             None \<Rightarrow> []
           | Some p \<Rightarrow> (case meta_ordering p of Some keys \<Rightarrow> keys | None \<Rightarrow> [])))"

definition model_ordering :: "string \<Rightarrow> string list" where
  "model_ordering cls = (case resolve_meta cls of None \<Rightarrow> [] | Some m \<Rightarrow> ordering_of_meta m)"

text \<open>
  \<^verbatim>\<open>QuerySet.order_by\<close> for the keys the default orderings use: a field name, or \<open>-\<close> and a
  field name for descending order. SQL leaves the order of rows with equal keys to the
  database; here they keep the order of the table.
\<close>

definition field_value :: "string \<Rightarrow> 'a OrderedMixin_scheme \<Rightarrow> int" where
  "field_value f r =
     (if f = ''order'' then int (order r)
      else if f = ''created_at'' then int (created_at r)
      else if f = ''updated_at'' then int (updated_at r)
      else if f = ''id'' then (case pk r of None \<Rightarrow> 0 | Some k \<Rightarrow> int k)
      else 0)"

definition sort_value :: "string \<Rightarrow> 'a OrderedMixin_scheme \<Rightarrow> int" where
  "sort_value key r =
     (case key of
        [] \<Rightarrow> 0
      | c # f \<Rightarrow> if c = CHR ''-'' then - field_value f r else field_value key r)"

fun order_by :: "string list \<Rightarrow> 'a OrderedMixin_scheme list \<Rightarrow> 'a OrderedMixin_scheme list" where
  "order_by [] rows = rows"
| "order_by (key # keys) rows = sort_key (sort_value key) (order_by keys rows)"

text \<open>
  The order of a list response when the request names none. With REST framework's
  \<^verbatim>\<open>OrderingFilter\<close> among the filter backends the \<^verbatim>\<open>ordering\<close> attribute of the view
  applies; without it the queryset keeps the ordering of the model. The settings module
  is not part of the sources, so \<open>ordering_filter\<close> is an argument. The views set
  \<^verbatim>\<open>ordering = ["-created_at"]\<close> for courses and \<^verbatim>\<open>ordering = ["order"]\<close> for modules and
  lessons.
\<close>

definition default_ordering :: "bool \<Rightarrow> string list \<Rightarrow> string \<Rightarrow> string list" where
  "default_ordering ordering_filter view_ordering model =
     (if ordering_filter \<and> view_ordering \<noteq> [] then view_ordering else model_ordering model)"

definition module_queryset :: "db \<Rightarrow> nat option \<Rightarrow> Module list" where
  "module_queryset d course_pk =
     (case course_pk of None \<Rightarrow> modules d
      | Some k \<Rightarrow> filter (\<lambda>m. Module.course m = Some k) (modules d))"

definition list_courses :: "bool \<Rightarrow> db \<Rightarrow> Course list" where
  "list_courses ordering_filter d =
     order_by (default_ordering ordering_filter [''-created_at''] ''Course'') (courses d)"

definition list_modules :: "bool \<Rightarrow> db \<Rightarrow> nat option \<Rightarrow> Module list" where
  "list_modules ordering_filter d course_pk =
     order_by (default_ordering ordering_filter [''order''] ''Module'') (module_queryset d course_pk)"

definition list_lessons :: "bool \<Rightarrow> db \<Rightarrow> nat option \<Rightarrow> Lesson list" where
  "list_lessons ordering_filter d module_pk =
     order_by (default_ordering ordering_filter [''order''] ''Lesson'') (lesson_queryset d module_pk)"


section \<open>Serializers (core/serializers.py, users/serializers.py)\<close>

text \<open>
  What a serializer outputs: JSON values. An object keeps the order of its fields. Times
  are output as numbers here.
\<close>

datatype json =
  JNull | JBool bool | JInt int | JNum rat | JStr string | JList "json list"
  | JObj "(string \<times> json) list"

definition json_pk :: "nat option \<Rightarrow> json" where
  "json_pk k = (case k of None \<Rightarrow> JNull | Some i \<Rightarrow> JInt (int i))"

definition obj_keys :: "json \<Rightarrow> string list" where
  "obj_keys j = (case j of JObj kvs \<Rightarrow> map fst kvs | _ \<Rightarrow> [])"

definition obj_get :: "json \<Rightarrow> string \<Rightarrow> json" where
  "obj_get j k = (case j of JObj kvs \<Rightarrow> (case map_of kvs k of Some v \<Rightarrow> v | None \<Rightarrow> JNull) | _ \<Rightarrow> JNull)"

definition list_items :: "json \<Rightarrow> json list" where
  "list_items j = (case j of JList xs \<Rightarrow> xs | _ \<Rightarrow> [])"

text \<open>
  The columns of a row as attributes by name, and \<^verbatim>\<open>getattr\<close> on them.
\<close>

definition lesson_attrs :: "Lesson \<Rightarrow> (string \<times> json) list" where
  "lesson_attrs l =
     [(''id'', json_pk (pk l)), (''created_at'', JInt (int (created_at l))),
      (''updated_at'', JInt (int (updated_at l))), (''order'', JInt (int (order l))),
      (''name'', JStr (name l)), (''slug'', JStr (slug l)),
      (''module_id'', json_pk (module l)), (''content'', JStr (content l)),
      (''duration_seconds'', JInt (int (duration_seconds l)))]"

definition module_attrs :: "Module \<Rightarrow> (string \<times> json) list" where
  "module_attrs m =
     [(''id'', json_pk (pk m)), (''created_at'', JInt (int (created_at m))),
      (''updated_at'', JInt (int (updated_at m))), (''order'', JInt (int (order m))),
      (''name'', JStr (name m)), (''slug'', JStr (slug m)),
      (''course_id'', json_pk (Module.course m)),
      (''description'', JStr (Module.description m))]"

definition course_attrs :: "Course \<Rightarrow> (string \<times> json) list" where
  "course_attrs c =
     [(''id'', json_pk (pk c)), (''created_at'', JInt (int (created_at c))),
      (''updated_at'', JInt (int (updated_at c))), (''order'', JInt (int (order c))),
      (''name'', JStr (name c)), (''slug'', JStr (slug c)),
      (''description'', JStr (Course.description c)),
      (''is_published'', JBool (is_published c))]"

definition user_attrs :: "User \<Rightarrow> (string \<times> json) list" where
  "user_attrs u =
     [(''id'', json_pk (pk u)), (''username'', JStr (username u)), (''email'', JStr (email u)),
      (''first_name'', JStr (first_name u)), (''last_name'', JStr (last_name u))]"

definition getattr :: "(string \<times> json) list \<Rightarrow> string \<Rightarrow> error + json" where
  "getattr attrs f = (case map_of attrs f of None \<Rightarrow> Inl AttributeError | Some v \<Rightarrow> Inr v)"

text \<open>
  \<^verbatim>\<open>Lesson.objects.only("id", "name", "slug", "order")\<close> loads these columns (and always the
  primary key) and defers the others: reading a deferred attribute fetches the row again
  by primary key. \<^verbatim>\<open>only\<close> limits what the query loads, not what an instance can give.
\<close>

record deferred_lesson =
  loaded :: "(string \<times> json) list"
  lesson_pk :: "nat option"

definition only :: "string list \<Rightarrow> Lesson \<Rightarrow> deferred_lesson" where
  "only names l =
     \<lparr>loaded = filter (\<lambda>(f, v). f \<in> set names \<or> f = ''id'') (lesson_attrs l), lesson_pk = pk l\<rparr>"

definition lesson_getattr :: "Lesson list \<Rightarrow> deferred_lesson \<Rightarrow> string \<Rightarrow> error + json" where
  "lesson_getattr tbl inst f =
     (case map_of (loaded inst) f of
        Some v \<Rightarrow> Inr v
      | None \<Rightarrow>
          (case find (\<lambda>r. pk r = lesson_pk inst) tbl of
             None \<Rightarrow> Inl DoesNotExist
           | Some r \<Rightarrow> getattr (lesson_attrs r) f))"

text \<open>
  \<^verbatim>\<open>Serializer.to_representation\<close> outputs the declared fields in their order, each read
  from the instance; \<^verbatim>\<open>many=True\<close> serializes a list of instances.
\<close>

fun to_representation :: "(string \<Rightarrow> error + json) \<Rightarrow> string list \<Rightarrow> error + (string \<times> json) list" where
  "to_representation get [] = Inr []"
| "to_representation get (f # fs) =
     (case get f of
        Inl e \<Rightarrow> Inl e
      | Inr v \<Rightarrow> (case to_representation get fs of Inl e \<Rightarrow> Inl e | Inr kvs \<Rightarrow> Inr ((f, v) # kvs)))"

fun many :: "('a \<Rightarrow> error + json) \<Rightarrow> 'a list \<Rightarrow> error + json list" where
  "many ser [] = Inr []"
| "many ser (x # xs) =
     (case ser x of
        Inl e \<Rightarrow> Inl e
      | Inr j \<Rightarrow> (case many ser xs of Inl e \<Rightarrow> Inl e | Inr js \<Rightarrow> Inr (j # js)))"

text \<open>
  \<^verbatim>\<open>LessonSerializer\<close>, \<^verbatim>\<open>ModuleSerializer\<close> (with its lessons nested), \<^verbatim>\<open>UserSerializer\<close> and
  \<^verbatim>\<open>CourseSerializer\<close>, each with the \<^verbatim>\<open>fields\<close> of its \<^verbatim>\<open>Meta\<close>. A module comes with its
  prefetched lessons. \<^verbatim>\<open>tags\<close> and \<^verbatim>\<open>topics\<close> are lists of primary keys;
  \<^verbatim>\<open>completion_rate\<close> is null unless the request has an authenticated user.
\<close>

definition LessonSerializer_fields :: "string list" where
  "LessonSerializer_fields =
     [''id'', ''name'', ''slug'', ''content'', ''duration_seconds'', ''order'', ''created_at'',
      ''updated_at'']"

definition LessonSerializer :: "Lesson list \<Rightarrow> deferred_lesson \<Rightarrow> error + json" where
  "LessonSerializer tbl inst =
     map_sum id JObj (to_representation (lesson_getattr tbl inst) LessonSerializer_fields)"

definition ModuleSerializer_fields :: "string list" where
  "ModuleSerializer_fields =
     [''id'', ''name'', ''slug'', ''description'', ''order'', ''lessons'', ''created_at'',
      ''updated_at'']"

definition ModuleSerializer :: "Lesson list \<Rightarrow> Module \<times> deferred_lesson list \<Rightarrow> error + json" where
  "ModuleSerializer tbl inst =
     map_sum id JObj
       (to_representation
          (\<lambda>f. if f = ''lessons'' then map_sum id JList (many (LessonSerializer tbl) (snd inst))
               else getattr (module_attrs (fst inst)) f)
          ModuleSerializer_fields)"

definition UserSerializer_fields :: "string list" where
  "UserSerializer_fields = [''id'', ''username'', ''email'', ''first_name'', ''last_name'']"

definition UserSerializer :: "User \<Rightarrow> error + json" where
  "UserSerializer u = map_sum id JObj (to_representation (getattr (user_attrs u)) UserSerializer_fields)"

definition CourseSerializer_fields :: "string list" where
  "CourseSerializer_fields =
     [''id'', ''name'', ''slug'', ''description'', ''is_published'', ''tags'', ''topics'',
      ''instructors'', ''modules'', ''total_lessons'', ''completion_rate'', ''created_at'',
      ''updated_at'']"

definition related_pks :: "(nat \<times> nat) list \<Rightarrow> nat option \<Rightarrow> json" where
  "related_pks through k = JList [JInt (int t). (c, t) \<leftarrow> through, Some c = k]"

definition get_completion_rate :: "db \<Rightarrow> request option \<Rightarrow> Course \<Rightarrow> json" where
  "get_completion_rate d req obj =
     (case Option.bind req request_user of
        None \<Rightarrow> JNull
      | Some u \<Rightarrow> (case pk obj of None \<Rightarrow> JNum 0 | Some k \<Rightarrow> JNum (completion_for d k u)))"

text \<open>
  The queryset of \<^verbatim>\<open>CourseViewSet\<close> prefetches \<^verbatim>\<open>modules__lessons\<close> with the \<^verbatim>\<open>only\<close> queryset
  above; modules and lessons come in the default ordering of their models.
  \<open>retrieve_course\<close> is \<^verbatim>\<open>GET courses/<pk>\<close>, the full shape of a course.
\<close>

definition prefetch_modules :: "db \<Rightarrow> Course \<Rightarrow> (Module \<times> deferred_lesson list) list" where
  "prefetch_modules d c =
     map (\<lambda>m. (m, map (only [''id'', ''name'', ''slug'', ''order''])
                   (order_by (model_ordering ''Lesson'')
                      (filter (\<lambda>l. module l = pk m \<and> module l \<noteq> None) (lessons d)))))
       (order_by (model_ordering ''Module'') (filter (\<lambda>m. Module.course m = pk c \<and> Module.course m \<noteq> None) (modules d)))"

definition CourseSerializer :: "db \<Rightarrow> request option \<Rightarrow> Course \<Rightarrow> error + json" where
  "CourseSerializer d req obj =
     map_sum id JObj
       (to_representation
          (\<lambda>f. if f = ''tags'' then Inr (related_pks (course_tags d) (pk obj))
               else if f = ''topics'' then Inr (related_pks (course_topics d) (pk obj))
               else if f = ''instructors'' then
                 map_sum id JList
                   (many UserSerializer
                      [u. (c, i) \<leftarrow> course_instructors d, Some c = pk obj, u \<leftarrow> users d, pk u = Some i])
               else if f = ''modules'' then
                 map_sum id JList (many (ModuleSerializer (lessons d)) (prefetch_modules d obj))
               else if f = ''total_lessons'' then
                 Inr (case pk obj of None \<Rightarrow> JInt 0 | Some k \<Rightarrow> JInt (int (total_lessons d k)))
               else if f = ''completion_rate'' then Inr (get_completion_rate d req obj)
               else getattr (course_attrs obj) f)
          CourseSerializer_fields)"

definition retrieve_course :: "db \<Rightarrow> request \<Rightarrow> nat \<Rightarrow> error + json" where
  "retrieve_course d req k =
     (case get_object (courses d) k of
        Inl e \<Rightarrow> Inl e
      | Inr obj \<Rightarrow> CourseSerializer d (Some req) obj)"

text \<open>The lesson objects nested in a full course: those of all its module objects.\<close>

definition nested_lessons :: "json \<Rightarrow> json list" where
  "nested_lessons j =
     concat (map (\<lambda>m. list_items (obj_get m ''lessons'')) (list_items (obj_get j ''modules'')))"

text \<open>
  \<^verbatim>\<open>CourseDynamicSerializer\<close>. \<open>requested\<close> is the keyword argument \<^verbatim>\<open>fields\<close> (\<open>None\<close> when it is
  not given). \<^verbatim>\<open>if fields:\<close> is false for \<^verbatim>\<open>None\<close> and for an empty collection. The loop pops
  every existing field that was not requested; it runs over a Python set, here in the
  order of the declared fields (\<open>dynamic_pop_order\<close> below: every order gives the same
  fields). \<^verbatim>\<open>modules\<close> is output as the list of the primary keys of the course's modules.
\<close>

definition CourseDynamicSerializer_fields :: "string list" where
  "CourseDynamicSerializer_fields = [''id'', ''name'', ''slug'', ''description'', ''modules'']"

definition CourseDynamicSerializer_init :: "string list option \<Rightarrow> string list" where
  "CourseDynamicSerializer_init requested =
     (let self_fields = CourseDynamicSerializer_fields in
      case requested of
        None \<Rightarrow> self_fields
      | Some names \<Rightarrow>
          if names \<noteq> [] then
            (let allowed = set names;
                 existing = self_fields
             in fold removeAll (filter (\<lambda>f. f \<notin> allowed) existing) self_fields)
          else self_fields)"

definition CourseDynamicSerializer :: "db \<Rightarrow> string list option \<Rightarrow> Course \<Rightarrow> error + json" where
  "CourseDynamicSerializer d requested obj =
     map_sum id JObj
       (to_representation
          (\<lambda>f. if f = ''modules'' then
                 Inr (JList (map (\<lambda>m. json_pk (pk m))
                        (order_by (model_ordering ''Module'')
                           (filter (\<lambda>m. Module.course m = pk obj \<and> Module.course m \<noteq> None) (modules d)))))
               else getattr (course_attrs obj) f)
          (CourseDynamicSerializer_init requested))"


section \<open>Example stores\<close>




text \<open>
  A store with three courses. Course 1 has two modules with three lessons; user 7 has
  completed two of them, left one open, and completed a lesson of course 2.
\<close>

definition django_course :: Course where
  "django_course = \<lparr>pk = Some 1, created_at = 1, updated_at = 1, order = 1, name = ''Django'',
     slug = ''django'', Course.description = ''Web'', is_published = True\<rparr>"

definition example_db :: db where
  "example_db = \<lparr>
     courses = [
       django_course,
       \<lparr>pk = Some 2, created_at = 2, updated_at = 2, order = 0, name = ''Flask'', slug = ''flask'',
        Course.description = [], is_published = False\<rparr>,
       \<lparr>pk = Some 3, created_at = 3, updated_at = 3, order = 2, name = ''SQL'', slug = ''sql'',
        Course.description = [], is_published = True\<rparr>],
     modules = [
       \<lparr>pk = Some 1, created_at = 1, updated_at = 1, order = 0, name = ''Intro'', slug = ''intro'',
        Module.course = Some 1, Module.description = []\<rparr>,
       \<lparr>pk = Some 2, created_at = 1, updated_at = 1, order = 1, name = ''Models'', slug = ''models'',
        Module.course = Some 1, Module.description = []\<rparr>,
       \<lparr>pk = Some 3, created_at = 2, updated_at = 2, order = 0, name = ''Intro'', slug = ''intro-2'',
        Module.course = Some 2, Module.description = []\<rparr>],
     lessons = [
       \<lparr>pk = Some 1, created_at = 1, updated_at = 1, order = 0, name = ''Setup'', slug = ''setup'',
        module = Some 1, content = ''Install'', duration_seconds = 60\<rparr>,
       \<lparr>pk = Some 2, created_at = 1, updated_at = 1, order = 1, name = ''Hello'', slug = ''hello'',
        module = Some 1, content = ''Hello'', duration_seconds = 120\<rparr>,
       \<lparr>pk = Some 3, created_at = 1, updated_at = 1, order = 0, name = ''Fields'', slug = ''fields'',
        module = Some 2, content = ''Fields'', duration_seconds = 300\<rparr>,
       \<lparr>pk = Some 4, created_at = 2, updated_at = 2, order = 0, name = ''Setup'', slug = ''setup-2'',
        module = Some 3, content = ''Install'', duration_seconds = 60\<rparr>],
     enrollments = [
       \<lparr>pk = Some 1, created_at = 3, updated_at = 3, Enrollment.course = 1, Enrollment.user = 7,
        enrolled_at = 3\<rparr>],
     progress = [
       \<lparr>pk = Some 1, created_at = 4, updated_at = 4, LessonProgress.user = Some 7, lesson = 1,
        completed = True, completed_at = Some 4\<rparr>,
       \<lparr>pk = Some 2, created_at = 5, updated_at = 5, LessonProgress.user = Some 7, lesson = 3,
        completed = True, completed_at = Some 5\<rparr>,
       \<lparr>pk = Some 3, created_at = 6, updated_at = 6, LessonProgress.user = Some 7, lesson = 2,
        completed = False, completed_at = None\<rparr>,
       \<lparr>pk = Some 4, created_at = 6, updated_at = 6, LessonProgress.user = Some 7, lesson = 4,
        completed = True, completed_at = Some 6\<rparr>,
       \<lparr>pk = Some 5, created_at = 7, updated_at = 7, LessonProgress.user = Some 8, lesson = 2,
        completed = True, completed_at = Some 7\<rparr>],
     tags = [
       \<lparr>pk = Some 1, created_at = 1, updated_at = 1, order = 0, name = ''Web'', slug = ''web''\<rparr>],
     topics = [],
     users = [
       \<lparr>pk = Some 7, username = ''ann'', email = ''ann@example.org'', first_name = ''Ann'',
        last_name = ''Lee''\<rparr>,
       \<lparr>pk = Some 8, username = ''bob'', email = ''bob@example.org'', first_name = ''Bob'',
        last_name = ''Ray''\<rparr>],
     course_tags = [(1, 1)], course_topics = [], course_instructors = [(1, 8)]\<rparr>"


text \<open>
  A new, unsaved module (with or without course), a new lesson, the stored module
  \<open>Intro\<close> of course 1, and a course without name and slug.
\<close>

definition new_module :: "datetime \<Rightarrow> string \<Rightarrow> nat option \<Rightarrow> Module" where
  "new_module now n c = \<lparr>pk = None, created_at = now, updated_at = now, order = 0, name = n,
     slug = [], Module.course = c, Module.description = []\<rparr>"

definition new_lesson :: "datetime \<Rightarrow> string \<Rightarrow> nat option \<Rightarrow> Lesson" where
  "new_lesson now n m = \<lparr>pk = None, created_at = now, updated_at = now, order = 0, name = n,
     slug = [], module = m, content = [], duration_seconds = 0\<rparr>"

definition intro_module :: Module where
  "intro_module = \<lparr>pk = Some 1, created_at = 1, updated_at = 1, order = 0, name = ''Intro'',
     slug = ''intro'', Module.course = Some 1, Module.description = []\<rparr>"

definition unnamed_course :: "nat option \<Rightarrow> Course" where
  "unnamed_course k = \<lparr>pk = k, created_at = 1, updated_at = 1, order = 0, name = [],
     slug = [], Course.description = [], is_published = False\<rparr>"


section \<open>Theorems\<close>

subsection \<open>Helper lemmas on writes\<close>



lemma db_write_written:
  assumes "db_write conflict refused tbl inst = Inr (w, tbl')"
  shows "w \<in> set tbl'" and "w = inst\<lparr>pk := pk w\<rparr>"
  using assms
  by (auto simp: db_write_def Let_def list_ex_iff split: if_splits option.splits)


lemma fold_max_ge:
  "k \<le> fold (\<lambda>r k. case pk r of None \<Rightarrow> k | Some i \<Rightarrow> max i k) tbl k"
proof (induction tbl arbitrary: k)
  case Nil
  then show ?case by simp
next
  case (Cons a tbl)
  let ?k = "case pk a of None \<Rightarrow> k | Some i \<Rightarrow> max i k"
  have "k \<le> ?k" by (simp split: option.splits)
  also have "?k \<le> fold (\<lambda>r k. case pk r of None \<Rightarrow> k | Some i \<Rightarrow> max i k) tbl ?k"
    by (rule Cons.IH)
  finally show ?case by simp
qed

lemma fold_max_mem:
  "r \<in> set tbl \<Longrightarrow> pk r = Some i
    \<Longrightarrow> i \<le> fold (\<lambda>r k. case pk r of None \<Rightarrow> k | Some i \<Rightarrow> max i k) tbl k"
proof (induction tbl arbitrary: k)
  case Nil
  then show ?case by simp
next
  case (Cons a tbl)
  show ?case
  proof (cases "r = a")
    case True
    have "max i k \<le> fold (\<lambda>r k. case pk r of None \<Rightarrow> k | Some i \<Rightarrow> max i k) tbl (max i k)"
      by (rule fold_max_ge)
    with True Cons.prems show ?thesis by simp
  next
    case False
    with Cons show ?thesis by simp
  qed
qed

lemma next_pk_fresh: "r \<in> set tbl \<Longrightarrow> pk r \<noteq> Some (next_pk tbl)"
proof
  assume a: "r \<in> set tbl" "pk r = Some (next_pk tbl)"
  from fold_max_mem[OF this, of 0] show False by (simp add: next_pk_def)
qed



subsection \<open>Rounding to binary64\<close>

text \<open>
  \<open>ilog2\<close> is the binary exponent: \<open>2 powi (ilog2 q) \<le> q < 2 powi (ilog2 q + 1)\<close> for
  positive \<open>q\<close>. With it, a value of \<open>binary64\<close> or \<open>round_half_even\<close> is settled by
  inequalities between numerals.
\<close>

lemma log2_int_nonneg: "0 \<le> log2_int n"
  by (induction n rule: log2_int.induct) (subst log2_int.simps, simp)

lemma log2_int_bounds:
  "1 \<le> n \<Longrightarrow> 2 ^ nat (log2_int n) \<le> n \<and> n < 2 * 2 ^ nat (log2_int n)"
proof (induction n rule: log2_int.induct)
  case (1 n)
  show ?case
  proof (cases "n < 2")
    case True
    with "1.prems" have "n = 1" by simp
    then show ?thesis by (subst (1 2) log2_int.simps) simp
  next
    case False
    then have "1 \<le> n div 2" by simp
    with "1.IH" False
    have ih: "2 ^ nat (log2_int (n div 2)) \<le> n div 2"
             "n div 2 < 2 * 2 ^ nat (log2_int (n div 2))"
      by simp_all
    have eq: "nat (log2_int n) = Suc (nat (log2_int (n div 2)))"
      using False log2_int_nonneg[of "n div 2"] by (subst log2_int.simps) (simp add: nat_add_distrib)
    from ih show ?thesis unfolding eq by simp linarith
  qed
qed

lemma ilog2_bounds:
  assumes "0 < q"
  shows "2 powi (ilog2 q) \<le> q \<and> q < 2 powi (ilog2 q + 1)"
proof (cases "1 \<le> q")
  case True
  let ?n = "\<lfloor>q\<rfloor>"
  let ?k = "log2_int ?n"
  from True have n1: "1 \<le> ?n" by simp
  note b = log2_int_bounds[OF n1]
  have k0: "0 \<le> ?k" by (rule log2_int_nonneg)
  have "(2::rat) powi ?k = of_int (2 ^ nat ?k)"
    using k0 by (simp add: power_int_def)
  also have "\<dots> \<le> of_int ?n" using b by (simp only: of_int_le_iff)
  also have "\<dots> \<le> q" by simp
  finally have lo: "2 powi ?k \<le> q" .
  have "q < of_int (?n + 1)" by linarith
  also have "\<dots> \<le> of_int (2 * 2 ^ nat ?k)"
    using b by (simp only: of_int_le_iff) linarith
  also have "\<dots> = (2::rat) powi (?k + 1)"
    using k0 by (simp add: power_int_def nat_add_distrib)
  finally have hi: "q < 2 powi (?k + 1)" .
  from lo hi True show ?thesis by (simp add: ilog2_def)
next
  case False
  let ?x = "1 / q"
  let ?m = "\<lceil>?x\<rceil> - 1"
  let ?k = "log2_int ?m"
  from False assms have x1: "1 < ?x" by simp
  then have m1: "1 \<le> ?m" by linarith
  note b = log2_int_bounds[OF m1]
  have k0: "0 \<le> ?k" by (rule log2_int_nonneg)
  have il: "ilog2 q = - (?k + 1)" using False by (simp add: ilog2_def)
  have "?x \<le> of_int (?m + 1)" by simp
  also have "\<dots> \<le> of_int (2 * 2 ^ nat ?k)"
    using b by (simp only: of_int_le_iff) linarith
  also have "\<dots> = (2::rat) ^ Suc (nat ?k)" by simp
  finally have "1 / q \<le> 2 ^ Suc (nat ?k)" .
  with assms have "1 / 2 ^ Suc (nat ?k) \<le> q"
    by (simp add: field_simps)
  moreover have "(2::rat) powi (- (?k + 1)) = 1 / 2 ^ Suc (nat ?k)"
    using k0 by (simp add: power_int_def nat_add_distrib field_simps)
  ultimately have lo: "2 powi (ilog2 q) \<le> q" by (simp only: il)
  have "of_int (2 ^ nat ?k) \<le> (of_int ?m :: rat)"
    using b by (simp only: of_int_le_iff)
  also have "of_int ?m < ?x" by linarith
  finally have "2 ^ nat ?k < 1 / q" by simp
  with assms have "q < 1 / 2 ^ nat ?k"
    by (simp add: field_simps)
  moreover have "(2::rat) powi (- (?k + 1) + 1) = 1 / 2 ^ nat ?k"
    using k0 by (simp add: power_int_def field_simps)
  ultimately have hi: "q < 2 powi (ilog2 q + 1)" by (simp only: il)
  from lo hi show ?thesis by simp
qed

lemma ilog2_unique:
  assumes "2 powi e \<le> q" and "q < 2 powi (e + 1)"
  shows "ilog2 q = e"
proof -
  have "(0::rat) < 2 powi e" by simp
  with assms have q: "0 < q" by linarith
  note b = ilog2_bounds[OF q]
  have "(2::rat) powi e < 2 powi (ilog2 q + 1)" using assms b by linarith
  then have 1: "e < ilog2 q + 1"
    by (meson not_less one_le_numeral power_int_increasing)
  have "(2::rat) powi (ilog2 q) < 2 powi (e + 1)" using assms b by linarith
  then have 2: "ilog2 q < e + 1"
    by (meson not_less one_le_numeral power_int_increasing)
  from 1 2 show ?thesis by simp
qed

lemma round_half_even_unique:
  assumes "of_int z - 1 / 2 < q" and "q < of_int z + 1 / 2"
  shows "round_half_even q = z"
proof -
  have "\<lfloor>q\<rfloor> = z \<or> \<lfloor>q\<rfloor> = z - 1" using assms by linarith
  then show ?thesis
  proof
    assume f: "\<lfloor>q\<rfloor> = z"
    then have "q - of_int z < 1 / 2" using assms by linarith
    with f show ?thesis by (simp add: round_half_even_def Let_def)
  next
    assume f: "\<lfloor>q\<rfloor> = z - 1"
    then have "1 / 2 < q - of_int (z - 1)" using assms by simp
    with f show ?thesis by (simp add: round_half_even_def Let_def)
  qed
qed

lemma round_half_even_int: "round_half_even (of_int z) = z"
  by (simp add: round_half_even_def)

lemma binary64_eq:
  assumes "2 powi e \<le> \<bar>q\<bar>" and "\<bar>q\<bar> < 2 powi (e + 1)" and "- 1022 \<le> e"
    and "round_half_even (q / 2 powi (e - 52)) = z"
  shows "binary64 q = of_int z * 2 powi (e - 52)"
proof -
  have "(0::rat) < 2 powi e" by simp
  with assms have q: "q \<noteq> 0" by linarith
  have e: "ilog2 \<bar>q\<bar> = e" by (rule ilog2_unique) fact+
  have m: "max (e - 52) (- 1074) = e - 52" using assms(3) by simp
  show ?thesis using q assms(4) by (simp add: binary64_def e m)
qed

text \<open>The two computations of the specification's examples, step by step.\<close>

lemma binary64_two_thirds: "binary64 (2/3) = 6004799503160661 / 9007199254740992"
  by (subst binary64_eq[where e = "-1" and z = 6004799503160661])
     (simp_all add: round_half_even_unique)


lemma binary64_two_thirds_times_100: "binary64 (6004799503160661 / 9007199254740992 * 100) = 2345624805922133 / 35184372088832"
  by (subst binary64_eq[where e = 6 and z = 4691249611844266])
     (simp_all add: round_half_even_unique)

lemma round_half_even_6667: "round_half_even (2345624805922133 / 35184372088832 * 10 ^ 2) = 6667"
  by (rule round_half_even_unique) simp_all

lemma binary64_6667_of_int: "binary64 (of_int 6667 / 10 ^ 2) = 4691484174324859 / 70368744177664"
  by (subst binary64_eq[where e = 6 and z = 4691484174324859])
     (simp_all add: round_half_even_unique)

lemma py_round_two_thirds: "py_round (binary64 (binary64 (2 / 3) * 100)) 2 = 4691484174324859 / 70368744177664"
  by (simp only: py_round_def binary64_two_thirds binary64_two_thirds_times_100 round_half_even_6667 binary64_6667_of_int)

lemma binary64_quarter: "binary64 (1 / 4) = 1 / 4"
  by (subst binary64_eq[where e = "-2" and z = "2 ^ 52"])
     (simp_all add: round_half_even_unique)

lemma binary64_quarter_times_100: "binary64 (1 / 4 * 100) = 25"
  by (subst binary64_eq[where e = 4 and z = "25 * 2 ^ 48"])
     (simp_all add: round_half_even_unique)

lemma round_half_even_2500: "round_half_even (25 * 10 ^ 2) = 2500"
  using round_half_even_int[of 2500] by simp

lemma binary64_2500_of_int: "binary64 (of_int 2500 / 10 ^ 2) = 25"
  by (subst binary64_eq[where e = 4 and z = "25 * 2 ^ 48"])
     (simp_all add: round_half_even_unique)

lemma py_round_quarter: "py_round (binary64 (binary64 (1 / 4) * 100)) 2 = 25"
  by (simp only: py_round_def binary64_quarter binary64_quarter_times_100 round_half_even_2500 binary64_2500_of_int)


subsection \<open>Counting joined rows\<close>

lemma sum_list_indicator:
  "sum_list (map (\<lambda>x. if P x then 1 else 0) xs) = length (filter P xs)"
  by (induction xs) simp_all

lemma length_concat_map:
  "length (concat (map F xs)) = sum_list (map (\<lambda>x. length (F x)) xs)"
  by (induction xs) simp_all

lemma length_concat_if:
  "length (concat (map (\<lambda>y. if Q y then [x] else []) ys)) = length (filter Q ys)"
  by (induction ys) simp_all

lemma filter_key_le1:
  assumes "distinct (map f ys)"
  shows "length (filter (\<lambda>y. f y = v \<and> R y) ys) = (if \<exists>y \<in> set ys. f y = v \<and> R y then 1 else 0)"
  using assms
proof (induction ys)
  case Nil
  then show ?case by simp
next
  case (Cons a ys)
  then show ?case by (auto simp: image_iff)
qed

lemma join2_count:
  assumes "distinct (map f ys)"
  shows "length (concat (map (\<lambda>x. concat (map (\<lambda>y. if f y = k x \<and> R x y then [g x] else []) ys)) xs))
     = length (filter (\<lambda>x. \<exists>y \<in> set ys. f y = k x \<and> R x y) xs)"
proof -
  have "length (concat (map (\<lambda>x. concat (map (\<lambda>y. if f y = k x \<and> R x y then [g x] else []) ys)) xs))
      = sum_list (map (\<lambda>x. length (filter (\<lambda>y. f y = k x \<and> R x y) ys)) xs)"
    by (induction xs) (simp_all add: length_concat_if)
  also have "\<dots> = sum_list (map (\<lambda>x. if \<exists>y \<in> set ys. f y = k x \<and> R x y then 1 else 0) xs)"
    by (simp add: filter_key_le1[OF assms])
  also have "\<dots> = length (filter (\<lambda>x. \<exists>y \<in> set ys. f y = k x \<and> R x y) xs)"
    by (rule sum_list_indicator)
  finally show ?thesis .
qed

lemma total_lessons_card:
  assumes "unique_pks d"
  shows "total_lessons d c = card (lessons_under d c)"
proof -
  from assms have dm: "distinct (map pk (modules d))" and dl: "distinct (lessons d)"
    by (auto simp: unique_pks_def distinct_map)
  have "total_lessons d c
      = length (filter (\<lambda>l. \<exists>m \<in> set (modules d).
                  pk m = module l \<and> module l \<noteq> None \<and> Module.course m = Some c) (lessons d))"
    unfolding total_lessons_def
    using join2_count[OF dm, of module "\<lambda>l m. module l \<noteq> None \<and> Module.course m = Some c"
        "\<lambda>l. l" "lessons d"]
    by simp
  also have "\<dots> = card (lessons_under d c)"
    using dl by (simp add: lessons_under_def distinct_length_filter Int_def conj_commute)
  finally show ?thesis .
qed


lemma completed_count_card:
  assumes "unique_pks d"
  shows "length [p. p \<leftarrow> progress d, l \<leftarrow> lessons d, m \<leftarrow> modules d,
                   pk m = module l \<and> module l \<noteq> None \<and> pk l = Some (lesson p) \<and>
                   LessonProgress.user p = Some u \<and> Module.course m = Some c \<and> completed p]
         = card (completed_rows d c u)"
proof -
  from assms have dm: "distinct (map pk (modules d))" and dl: "distinct (map pk (lessons d))"
    and dp: "distinct (progress d)"
    by (auto simp: unique_pks_def distinct_map)
  let ?S = "\<lambda>p l. \<exists>m \<in> set (modules d). pk m = module l \<and> module l \<noteq> None \<and> pk l = Some (lesson p) \<and>
               LessonProgress.user p = Some u \<and> Module.course m = Some c \<and> completed p"
  let ?T = "\<lambda>p. \<exists>l \<in> set (lessons d). pk l = Some (lesson p) \<and> ?S p l"
  have inner: "length (concat (map (\<lambda>l. concat (map (\<lambda>m.
          if pk m = module l \<and> module l \<noteq> None \<and> pk l = Some (lesson p) \<and>
             LessonProgress.user p = Some u \<and> Module.course m = Some c \<and> completed p
          then [p] else []) (modules d))) (lessons d)))
        = (if ?T p then 1 else 0)" for p
  proof -
    have "length (concat (map (\<lambda>l. concat (map (\<lambda>m.
          if pk m = module l \<and> module l \<noteq> None \<and> pk l = Some (lesson p) \<and>
             LessonProgress.user p = Some u \<and> Module.course m = Some c \<and> completed p
          then [p] else []) (modules d))) (lessons d)))
        = length (filter (?S p) (lessons d))"
      by (rule join2_count[OF dm])
    also have "filter (?S p) (lessons d) = filter (\<lambda>l. pk l = Some (lesson p) \<and> ?S p l) (lessons d)"
      by (rule filter_cong) auto
    also have "length \<dots> = (if ?T p then 1 else 0)"
      by (rule filter_key_le1[OF dl])
    finally show ?thesis .
  qed
  have "length [p. p \<leftarrow> progress d, l \<leftarrow> lessons d, m \<leftarrow> modules d,
                   pk m = module l \<and> module l \<noteq> None \<and> pk l = Some (lesson p) \<and>
                   LessonProgress.user p = Some u \<and> Module.course m = Some c \<and> completed p]
      = sum_list (map (\<lambda>p. if ?T p then 1 else 0) (progress d))"
    by (subst length_concat_map) (simp only: inner)
  also have "\<dots> = length (filter ?T (progress d))"
    by (rule sum_list_indicator)
  also have "\<dots> = card {p \<in> set (progress d). ?T p}"
    using dp by (simp add: distinct_length_filter Int_def conj_commute)
  also have "{p \<in> set (progress d). ?T p} = completed_rows d c u"
    by (auto simp: completed_rows_def lessons_under_def)
  finally show ?thesis .
qed


subsection \<open>Completion percentage\<close>

lemma binary64_6667: "binary64 (6667 / 100) = 4691484174324859 / 70368744177664"
  by (subst binary64_eq[where e = 6 and z = 4691484174324859])
     (simp_all add: round_half_even_unique)

text \<open>
  C1. On a store with unique primary keys, \<open>completion_for\<close> returns exactly 0 when the
  course has no lesson in any of its modules; otherwise it returns the float
  \<^verbatim>\<open>round(completed / total * 100, 2)\<close>, where \<open>total\<close> is the number of lessons under the
  course and \<open>completed\<close> the number of progress rows of the user with \<open>completed\<close> set
  whose lesson's module belongs to the course. Four lessons with one completed give 25.0;
  three lessons with two completed give the float nearest to 66.67, which is
  \<open>4691484174324859 / 2 ^ 46\<close> (\<open>binary64_6667\<close>) and prints as 66.67.
\<close>

theorem completion_for_spec:
  assumes "unique_pks d"
  shows "completion_for d c u =
           (if card (lessons_under d c) = 0 then 0
            else py_round (binary64 (binary64 (of_nat (card (completed_rows d c u))
                                               / of_nat (card (lessons_under d c))) * 100)) 2)
       \<and> (card (lessons_under d c) = 4 \<and> card (completed_rows d c u) = 1
            \<longrightarrow> completion_for d c u = 25)
       \<and> (card (lessons_under d c) = 3 \<and> card (completed_rows d c u) = 2
            \<longrightarrow> completion_for d c u = binary64 (6667 / 100))"
proof -
  have eq: "completion_for d c u =
           (if card (lessons_under d c) = 0 then 0
            else py_round (binary64 (binary64 (of_nat (card (completed_rows d c u))
                                               / of_nat (card (lessons_under d c))) * 100)) 2)"
    unfolding completion_for_def Let_def
    by (simp only: total_lessons_card[OF assms] completed_count_card[OF assms])
  have a: "py_round (binary64 (binary64 (of_nat 1 / of_nat 4) * 100)) 2 = 25"
    using py_round_quarter by simp
  have b: "py_round (binary64 (binary64 (of_nat 2 / of_nat 3) * 100)) 2 = binary64 (6667 / 100)"
    using py_round_two_thirds binary64_6667 by simp
  from eq a b show ?thesis by simp
qed

text \<open>
  The theorem on \<open>example_db\<close>: course 1 has three lessons, user 7 completed two of them.
\<close>

theorem completion_for_spec_witness:
  "unique_pks example_db \<and> card (lessons_under example_db 1) = 3
   \<and> card (completed_rows example_db 1 7) = 2
   \<and> completion_for example_db 1 7 = 4691484174324859 / 70368744177664"
proof -
  have u: "unique_pks example_db"
    by (simp add: unique_pks_def example_db_def)
  have t: "card (lessons_under example_db 1) = 3"
    unfolding total_lessons_card[OF u, symmetric]
    by (simp add: total_lessons_def example_db_def)
  have c: "card (completed_rows example_db 1 7) = 2"
    unfolding completed_count_card[OF u, symmetric]
    by (simp add: example_db_def)
  from completion_for_spec[OF u, of 1 7] t c binary64_6667 u show ?thesis by simp
qed


subsection \<open>Completion time and completed flag\<close>

lemma signal_keeps [simp]:
  "completed (set_completed_at_for_progress now inst) = completed inst"
  "pk (set_completed_at_for_progress now inst) = pk inst"
  by (simp_all add: set_completed_at_for_progress_def)


lemma write_columns_pk [simp]: "pk (write_columns fs i r) = pk r"
  by (simp add: write_columns_def)











subsection \<open>Marking a lesson complete\<close>

text \<open>
  The view does not look at the caller, and it never answers \<open>Unauthorized\<close>.
\<close>

lemma mark_complete_ignores_request:
  "mark_complete now d req module_pk k = mark_complete now d req' module_pk k"
  by (simp add: mark_complete_def)

lemma mark_complete_never_unauthorized:
  "fst (mark_complete now d req module_pk k) \<noteq> Inl Unauthorized"
  by (auto simp: mark_complete_def get_object_def update_or_create_def save_progress_def
      db_write_def Let_def split: list.splits sum.splits if_splits option.splits prod.splits)

text \<open>
  On a store whose progress rows all have a user, as the NOT NULL column guarantees, the
  lookup \<^verbatim>\<open>user=None\<close> finds nothing, the insert of a row without user is refused, and the
  request ends with \<^verbatim>\<open>IntegrityError\<close>, whoever the caller is.
\<close>

lemma mark_complete_integrity_error:
  assumes "list_all (\<lambda>r. LessonProgress.user r \<noteq> None) (progress d)"
    and "get_object (lesson_queryset d module_pk) k = Inr lsn"
  shows "mark_complete now d req module_pk k = (Inl IntegrityError, d)"
proof -
  from assms(1) have "filter (\<lambda>r. LessonProgress.user r = None \<and> lesson r = k) (progress d) = []"
    by (auto simp: list_all_iff filter_empty_conv)
  then have "update_or_create now d None k = Inl IntegrityError"
    by (simp add: update_or_create_def save_progress_def set_completed_at_for_progress_def
        db_write_def progress_refused_def)
  with assms(2) show ?thesis by (simp add: mark_complete_def)
qed

text \<open>
  C3 (the code at the failing input). An anonymous \<^verbatim>\<open>POST lessons/1/mark-complete\<close> on
  \<open>example_db\<close>: the view does not answer \<open>Unauthorized\<close>; it attempts the write for the
  null user and ends with the database's \<^verbatim>\<open>IntegrityError\<close>.
\<close>

theorem mark_complete_anonymous:
  "mark_complete 10 example_db \<lparr>request_user = None\<rparr> None 1 = (Inl IntegrityError, example_db)
   \<and> fst (mark_complete 10 example_db \<lparr>request_user = None\<rparr> None 1) \<noteq> Inl Unauthorized"
proof -
  have "mark_complete 10 example_db \<lparr>request_user = None\<rparr> None 1 = (Inl IntegrityError, example_db)"
    by (rule mark_complete_integrity_error)
       (simp_all add: example_db_def lesson_queryset_def get_object_def)
  then show ?thesis by simp
qed

text \<open>
  C4 (the code at the failing input). A user marks lesson 1 complete twice on
  \<open>example_db\<close>, at times 10 and 11: both requests end with \<^verbatim>\<open>IntegrityError\<close> and there
  is no progress row for that user and lesson 1 afterwards, where the claim expects one.
  This is so for user 9, who is not in the user table, and for the stored user 8.
\<close>

theorem mark_complete_twice_no_row:
  "(case mark_complete 10 example_db \<lparr>request_user = Some 9\<rparr> None 1 of (r1, d1) \<Rightarrow>
      case mark_complete 11 d1 \<lparr>request_user = Some 9\<rparr> None 1 of (r2, d2) \<Rightarrow>
        r1 = Inl IntegrityError \<and> r2 = Inl IntegrityError
        \<and> progress_rows (progress d2) (Some 9) 1 = [])
   \<and> (case mark_complete 10 example_db \<lparr>request_user = Some 8\<rparr> None 1 of (r1, d1) \<Rightarrow>
        case mark_complete 11 d1 \<lparr>request_user = Some 8\<rparr> None 1 of (r2, d2) \<Rightarrow>
          r1 = Inl IntegrityError \<and> r2 = Inl IntegrityError
          \<and> progress_rows (progress d2) (Some 8) 1 = [])"
proof -
  have a: "mark_complete now example_db req None 1 = (Inl IntegrityError, example_db)" for now req
    by (rule mark_complete_integrity_error)
       (simp_all add: example_db_def lesson_queryset_def get_object_def)
  have b: "progress_rows (progress example_db) (Some 9) 1 = []"
    "progress_rows (progress example_db) (Some 8) 1 = []"
    by (simp_all add: progress_rows_def example_db_def)
  show ?thesis by (simp only: a b prod.case)
qed


subsection \<open>The upsert with a user\<close>

text \<open>
  What \<^verbatim>\<open>update_or_create\<close> does when it is given a user, which the view never does.
\<close>

lemma replace_by_key:
  assumes d: "distinct (map pk tbl)" and f: "filter P tbl = [obj]" and k: "pk obj = Some k" and w: "P w"
  shows "filter P (map (\<lambda>r. if pk r = Some k then w else r) tbl) = [w]"
proof -
  have "obj \<in> set (filter P tbl)" by (simp add: f)
  then have obj: "obj \<in> set tbl" "P obj" by simp_all
  have only: "r = obj" if "r \<in> set tbl" "P r" for r
  proof -
    from that have "r \<in> set (filter P tbl)" by simp
    with f show ?thesis by simp
  qed
  from d have inj: "inj_on pk (set tbl)" by (simp add: distinct_map)
  have key: "pk r = Some k \<longleftrightarrow> r = obj" if "r \<in> set tbl" for r
  proof
    assume "pk r = Some k"
    with k have "pk r = pk obj" by simp
    with inj that obj(1) show "r = obj" by (simp add: inj_on_def)
  next
    assume "r = obj"
    with k show "pk r = Some k" by simp
  qed
  have "filter P (map (\<lambda>r. if pk r = Some k then w else r) tbl)
      = map (\<lambda>r. if pk r = Some k then w else r)
          (filter (\<lambda>r. P (if pk r = Some k then w else r)) tbl)"
    by (simp add: filter_map comp_def)
  also have "filter (\<lambda>r. P (if pk r = Some k then w else r)) tbl = filter P tbl"
  proof (rule filter_cong[OF refl])
    fix r assume r: "r \<in> set tbl"
    show "P (if pk r = Some k then w else r) = P r"
    proof (cases "r = obj")
      case True
      with key[OF r] w obj(2) show ?thesis by simp
    next
      case False
      with key[OF r] show ?thesis by simp
    qed
  qed
  finally show ?thesis using f k by simp
qed

lemma progress_refused_iff:
  assumes "LessonProgress.user r = Some u" and "lesson r = l"
  shows "progress_refused d r \<longleftrightarrow> \<not> (references (users d) u \<and> references (lessons d) l)"
  using assms by (simp add: progress_refused_def)

lemma save_progress_not_refused:
  assumes "save_progress now d inst = Inr x"
  shows "\<not> progress_refused d ((set_completed_at_for_progress now inst)\<lparr>updated_at := now\<rparr>)"
  using assms by (auto simp: save_progress_def db_write_def Let_def split: if_splits)

lemma update_or_create_references:
  assumes "update_or_create now d (Some u) l = Inr x"
  shows "references (users d) u \<and> references (lessons d) l"
proof (cases "filter (\<lambda>r. LessonProgress.user r = Some u \<and> lesson r = l) (progress d)")
  case Nil
  let ?i = "\<lparr>pk = None, created_at = now, updated_at = now, LessonProgress.user = Some u,
             lesson = l, completed = True, completed_at = None\<rparr>"
  from assms Nil obtain y where "save_progress now d ?i = Inr y"
    by (auto simp: update_or_create_def split: sum.splits)
  from save_progress_not_refused[OF this] show ?thesis
    by (simp add: progress_refused_def set_completed_at_for_progress_def)
next
  case (Cons obj rest)
  show ?thesis
  proof (cases rest)
    case Nil
    with Cons have f: "filter (\<lambda>r. LessonProgress.user r = Some u \<and> lesson r = l) (progress d) = [obj]"
      by simp
    then have "obj \<in> set (filter (\<lambda>r. LessonProgress.user r = Some u \<and> lesson r = l) (progress d))"
      by simp
    then have o: "LessonProgress.user obj = Some u" "lesson obj = l" by simp_all
    from assms f obtain y where "save_progress now d (obj\<lparr>completed := True\<rparr>) = Inr y"
      by (auto simp: update_or_create_def split: sum.splits)
    from save_progress_not_refused[OF this] o show ?thesis
      by (simp add: progress_refused_def set_completed_at_for_progress_def split: if_splits)
  next
    case (Cons a list)
    with \<open>filter (\<lambda>r. LessonProgress.user r = Some u \<and> lesson r = l) (progress d) = obj # rest\<close> assms
    show ?thesis by (simp add: update_or_create_def)
  qed
qed

lemma update_or_create_update:
  fixes u l now
  defines "P \<equiv> \<lambda>r. LessonProgress.user r = Some u \<and> lesson r = l"
  assumes ok: "stored_keys_ok (progress d)" and f: "filter P (progress d) = [obj]"
    and fk: "references (users d) u" "references (lessons d) l"
  defines "obj' \<equiv> (set_completed_at_for_progress now (obj\<lparr>completed := True\<rparr>))\<lparr>updated_at := now\<rparr>"
  shows "\<exists>tbl'. update_or_create now d (Some u) l = Inr ((obj', False), tbl')
           \<and> filter P tbl' = [obj'] \<and> stored_keys_ok tbl'"
proof -
  let ?tbl = "progress d"
  have "obj \<in> set (filter P ?tbl)" by (simp add: f)
  then have obj: "obj \<in> set ?tbl" "P obj" by simp_all
  with ok obtain k where k: "pk obj = Some k"
    by (auto simp: stored_keys_ok_def list_all_iff)
  have pk': "pk obj' = Some k" and P': "P obj'"
    using k obj(2) by (simp_all add: obj'_def P_def set_completed_at_for_progress_def)
  have noconf: "\<not> list_ex (\<lambda>r. pk r \<noteq> pk obj' \<and> progress_conflict r obj') ?tbl"
  proof
    assume "list_ex (\<lambda>r. pk r \<noteq> pk obj' \<and> progress_conflict r obj') ?tbl"
    then obtain r where r: "r \<in> set ?tbl" "pk r \<noteq> Some k" "P r"
      using P' by (auto simp: list_ex_iff progress_conflict_def P_def pk')
    then have "r \<in> set (filter P ?tbl)" by simp
    with f have "r = obj" by simp
    with r(2) k show False by simp
  qed
  have u': "LessonProgress.user obj' = Some u" "lesson obj' = l" using P' by (simp_all add: P_def)
  have noref: "\<not> progress_refused d obj'"
    using fk by (simp add: progress_refused_iff[OF u'])
  let ?tbl' = "map (\<lambda>r. if pk r = Some k then obj' else r) ?tbl"
  have ex: "list_ex (\<lambda>r. pk r = Some k) ?tbl" using obj(1) k by (auto simp: list_ex_iff)
  have w: "db_write progress_conflict (progress_refused d) ?tbl obj' = Inr (obj', ?tbl')"
    using noconf noref ex by (simp add: db_write_def pk')
  have "save_progress now d (obj\<lparr>completed := True\<rparr>) = Inr (obj', ?tbl')"
    using w by (simp add: save_progress_def Let_def obj'_def)
  then have 1: "update_or_create now d (Some u) l = Inr ((obj', False), ?tbl')"
    using f by (simp add: update_or_create_def P_def)
  from ok have d: "distinct (map pk ?tbl)" by (simp add: stored_keys_ok_def)
  have 2: "filter P ?tbl' = [obj']" by (rule replace_by_key[OF d f k P'])
  have mp: "map pk (map (\<lambda>r. if pk r = Some k then obj' else r) tbl) = map pk tbl" for tbl
    by (induction tbl) (simp_all add: pk')
  have "distinct (map pk ?tbl')" unfolding mp by (rule d)
  moreover have "list_all (\<lambda>r. pk r \<noteq> None) ?tbl'"
    using ok pk' by (auto simp: stored_keys_ok_def list_all_iff)
  ultimately have 3: "stored_keys_ok ?tbl'" unfolding stored_keys_ok_def by blast
  from 1 2 3 show ?thesis by blast
qed

lemma update_or_create_insert:
  fixes u l now
  defines "P \<equiv> \<lambda>r. LessonProgress.user r = Some u \<and> lesson r = l"
  assumes ok: "stored_keys_ok (progress d)" and f: "filter P (progress d) = []"
    and fk: "references (users d) u" "references (lessons d) l"
  defines "obj' \<equiv> \<lparr>pk = Some (next_pk (progress d)), created_at = now, updated_at = now,
      LessonProgress.user = Some u, lesson = l, completed = True, completed_at = Some now\<rparr>"
  shows "update_or_create now d (Some u) l = Inr ((obj', True), progress d @ [obj'])"
    and "filter P (progress d @ [obj']) = [obj']" and "stored_keys_ok (progress d @ [obj'])"
proof -
  let ?tbl = "progress d"
  let ?i = "\<lparr>pk = None, created_at = now, updated_at = now,
      LessonProgress.user = Some u, lesson = l, completed = True, completed_at = Some now\<rparr>"
  have noconf: "\<not> list_ex (\<lambda>r. pk r \<noteq> pk ?i \<and> progress_conflict r ?i) ?tbl"
  proof
    assume "list_ex (\<lambda>r. pk r \<noteq> pk ?i \<and> progress_conflict r ?i) ?tbl"
    then obtain r where "r \<in> set ?tbl" "P r"
      by (auto simp: list_ex_iff progress_conflict_def P_def)
    then have "r \<in> set (filter P ?tbl)" by simp
    with f show False by simp
  qed
  have noref: "\<not> progress_refused d ?i"
    using fk by (simp add: progress_refused_def)
  from noconf noref
  have "db_write progress_conflict (progress_refused d) ?tbl ?i = Inr (obj', ?tbl @ [obj'])"
    by (simp add: db_write_def obj'_def Let_def)
  then have "save_progress now d
       \<lparr>pk = None, created_at = now, updated_at = now, LessonProgress.user = Some u,
        lesson = l, completed = True, completed_at = None\<rparr> = Inr (obj', ?tbl @ [obj'])"
    by (simp add: save_progress_def set_completed_at_for_progress_def)
  then show "update_or_create now d (Some u) l = Inr ((obj', True), ?tbl @ [obj'])"
    using f by (simp add: update_or_create_def P_def)
  show "filter P (?tbl @ [obj']) = [obj']"
    using f by (simp add: P_def obj'_def)
  have "Some (next_pk ?tbl) \<notin> set (map pk ?tbl)"
  proof
    assume "Some (next_pk ?tbl) \<in> set (map pk ?tbl)"
    then obtain r where "r \<in> set ?tbl" "pk r = Some (next_pk ?tbl)" by auto
    with next_pk_fresh[of r ?tbl] show False by simp
  qed
  then show "stored_keys_ok (?tbl @ [obj'])"
    using ok by (simp add: stored_keys_ok_def obj'_def)
qed

text \<open>
  X1. On a store whose progress table is well formed, if \<^verbatim>\<open>update_or_create\<close> for user \<open>u\<close>
  and lesson \<open>l\<close> succeeds, then calling it again on the store it leaves succeeds as an
  update, there is exactly one progress row for \<open>u\<close> and \<open>l\<close> after each call, the row is
  completed, and the second call leaves \<open>completed_at\<close> as the first call left it.
\<close>

theorem update_or_create_twice:
  assumes ok: "stored_keys_ok (progress d)"
    and first: "update_or_create t1 d (Some u) l = Inr ((obj1, created), tbl1)"
  shows "\<exists>obj2 tbl2. update_or_create t2 (d\<lparr>progress := tbl1\<rparr>) (Some u) l = Inr ((obj2, False), tbl2)
           \<and> progress_rows tbl1 (Some u) l = [obj1]
           \<and> progress_rows tbl2 (Some u) l = [obj2]
           \<and> completed obj1 \<and> completed_at obj1 \<noteq> None
           \<and> completed obj2 \<and> completed_at obj2 = completed_at obj1"
proof -
  let ?P = "\<lambda>r. LessonProgress.user r = Some u \<and> lesson r = l"
  let ?d1 = "d\<lparr>progress := tbl1\<rparr>"
  from update_or_create_references[OF first]
  have fk: "references (users d) u" "references (lessons d) l" by simp_all
  have one: "filter ?P tbl1 = [obj1] \<and> stored_keys_ok tbl1 \<and> completed obj1 \<and> completed_at obj1 \<noteq> None"
  proof (cases "filter ?P (progress d)")
    case Nil
    from update_or_create_insert[OF ok Nil fk, of t1] first show ?thesis by auto
  next
    case (Cons obj rest)
    show ?thesis
    proof (cases rest)
      case Nil
      with Cons have f: "filter ?P (progress d) = [obj]" by simp
      from update_or_create_update[OF ok f fk, of t1] first show ?thesis
        by (auto simp: set_completed_at_for_progress_def)
    next
      case (Cons a list)
      with \<open>filter ?P (progress d) = obj # rest\<close> first show ?thesis
        by (simp add: update_or_create_def)
    qed
  qed
  then have f1: "filter ?P (progress ?d1) = [obj1]" and ok1: "stored_keys_ok (progress ?d1)"
    and c1: "completed obj1" "completed_at obj1 \<noteq> None" by simp_all
  have fk1: "references (users ?d1) u" "references (lessons ?d1) l" using fk by simp_all
  let ?obj2 = "(set_completed_at_for_progress t2 (obj1\<lparr>completed := True\<rparr>))\<lparr>updated_at := t2\<rparr>"
  from update_or_create_update[OF ok1 f1 fk1, of t2] obtain tbl2 where
    2: "update_or_create t2 ?d1 (Some u) l = Inr ((?obj2, False), tbl2)" "filter ?P tbl2 = [?obj2]"
    by blast
  have "completed ?obj2 \<and> completed_at ?obj2 = completed_at obj1"
    using c1 by (simp add: set_completed_at_for_progress_def)
  with 2 f1 c1 show ?thesis by (auto simp: progress_rows_def)
qed

text \<open>
  User 8 and lesson 1 on \<open>example_db\<close>, at times 10 and 11: the first call creates the
  row, the second updates it, and the completion time stays 10.
\<close>

theorem update_or_create_twice_witness:
  "stored_keys_ok (progress example_db)
   \<and> (\<exists>obj1 tbl1 obj2 tbl2.
         update_or_create 10 example_db (Some 8) 1 = Inr ((obj1, True), tbl1)
       \<and> update_or_create 11 (example_db\<lparr>progress := tbl1\<rparr>) (Some 8) 1 = Inr ((obj2, False), tbl2)
       \<and> progress_rows tbl2 (Some 8) 1 = [obj2]
       \<and> completed obj2 \<and> completed_at obj2 = Some 10)"
proof -
  have ok: "stored_keys_ok (progress example_db)"
    by (simp add: stored_keys_ok_def example_db_def)
  have f: "filter (\<lambda>r. LessonProgress.user r = Some 8 \<and> lesson r = 1) (progress example_db) = []"
    by (simp add: example_db_def)
  have fk: "references (users example_db) 8" "references (lessons example_db) 1"
    by (simp_all add: references_def example_db_def)
  let ?obj1 = "\<lparr>pk = Some (next_pk (progress example_db)), created_at = 10, updated_at = 10,
      LessonProgress.user = Some 8, lesson = 1, completed = True, completed_at = Some 10\<rparr>"
  have first: "update_or_create 10 example_db (Some 8) 1
      = Inr ((?obj1, True), progress example_db @ [?obj1])"
    by (rule update_or_create_insert(1)[OF ok f fk])
  from update_or_create_twice[OF ok first, of 11] first ok show ?thesis
    by auto
qed


subsection \<open>Cascading delete\<close>

lemma get_object_NotFound: "list_all (\<lambda>r. pk r \<noteq> Some k) qs \<Longrightarrow> get_object qs k = Inl NotFound"
  by (simp add: get_object_def list_all_iff filter_empty_conv[THEN iffD2])

lemma victim_removed:
  "r \<in> set victims \<Longrightarrow> r \<notin> set (filter (\<lambda>x. pk x \<notin> set (map pk victims)) tbl)"
  by simp

lemma victim_not_found:
  assumes "r \<in> set victims" and "pk r = Some i"
  shows "get_object (filter (\<lambda>x. pk x \<notin> set (map pk victims)) tbl) i = Inl NotFound"
proof (rule get_object_NotFound)
  from assms have "Some i \<in> set (map pk victims)" by force
  then show "list_all (\<lambda>r. pk r \<noteq> Some i) (filter (\<lambda>x. pk x \<notin> set (map pk victims)) tbl)"
    unfolding list_all_iff by auto
qed

lemma survivor_not_victim:
  assumes "r \<in> set (filter (\<lambda>x. pk x \<notin> set (map pk (filter P tbl))) tbl)"
  shows "\<not> P r"
proof
  assume "P r"
  with assms have "r \<in> set (filter P tbl)" by simp
  then have "pk r \<in> set (map pk (filter P tbl))" by force
  with assms show False by simp
qed

text \<open>
  With unique primary keys the delete removes exactly the collected rows: as many modules
  as the course has, and as many lessons as \<open>total_lessons\<close> counts.
\<close>

lemma delete_by_key_filter:
  assumes "distinct (map pk tbl)"
  shows "filter (\<lambda>r. pk r \<notin> set (map pk (filter P tbl))) tbl = filter (\<lambda>r. \<not> P r) tbl"
proof (rule filter_cong[OF refl])
  fix r assume r: "r \<in> set tbl"
  from assms have inj: "inj_on pk (set tbl)" by (simp add: distinct_map)
  show "(pk r \<notin> set (map pk (filter P tbl))) = (\<not> P r)"
  proof
    assume a: "pk r \<notin> set (map pk (filter P tbl))"
    show "\<not> P r"
    proof
      assume "P r"
      with r have "r \<in> set (filter P tbl)" by simp
      then have "pk r \<in> set (map pk (filter P tbl))" by force
      with a show False by simp
    qed
  next
    assume n: "\<not> P r"
    show "pk r \<notin> set (map pk (filter P tbl))"
    proof
      assume "pk r \<in> set (map pk (filter P tbl))"
      then obtain x where x: "x \<in> set tbl" "P x" "pk x = pk r" by auto
      with inj r have "x = r" by (simp add: inj_on_def)
      with x n show False by simp
    qed
  qed
qed

lemma lessons_under_filter:
  "lessons_under d k
     = set (filter (\<lambda>l. module l \<noteq> None \<and>
                module l \<in> set (map pk (filter (\<lambda>m. Module.course m = Some k) (modules d))))
              (lessons d))"
proof (rule set_eqI)
  fix x :: Lesson
  let ?ms = "filter (\<lambda>m. Module.course m = Some k) (modules d)"
  have "(\<exists>m \<in> set (modules d). pk m = module x \<and> module x \<noteq> None \<and> Module.course m = Some k)
      \<longleftrightarrow> module x \<noteq> None \<and> module x \<in> set (map pk ?ms)"
  proof
    assume "\<exists>m \<in> set (modules d). pk m = module x \<and> module x \<noteq> None \<and> Module.course m = Some k"
    then obtain m where m: "m \<in> set (modules d)" "pk m = module x" "module x \<noteq> None"
      "Module.course m = Some k" by blast
    from m(1,4) have "m \<in> set ?ms" by simp
    then have "pk m \<in> pk ` set ?ms" by (rule imageI)
    with m(2,3) show "module x \<noteq> None \<and> module x \<in> set (map pk ?ms)" by simp
  next
    assume a: "module x \<noteq> None \<and> module x \<in> set (map pk ?ms)"
    then have "module x \<in> pk ` set ?ms" by simp
    then obtain m where m: "m \<in> set ?ms" "module x = pk m" by (rule imageE)
    from m(1) have "m \<in> set (modules d)" "Module.course m = Some k" by simp_all
    with m(2) a show "\<exists>m \<in> set (modules d). pk m = module x \<and> module x \<noteq> None \<and> Module.course m = Some k"
      by (intro bexI[of _ m]) simp_all
  qed
  then show "x \<in> lessons_under d k \<longleftrightarrow> x \<in> set (filter (\<lambda>l. module l \<noteq> None \<and>
                module l \<in> set (map pk ?ms)) (lessons d))"
    by (simp add: lessons_under_def)
qed

lemma course_delete_counts:
  assumes "unique_pks d"
  shows "length (modules (delete_course k d)) + length (filter (\<lambda>m. Module.course m = Some k) (modules d))
           = length (modules d)"
    and "length (lessons (delete_course k d)) + total_lessons d k = length (lessons d)"
proof -
  from assms have dm: "distinct (map pk (modules d))" and dl: "distinct (map pk (lessons d))"
    by (simp_all add: unique_pks_def)
  let ?ms = "filter (\<lambda>m. Module.course m = Some k) (modules d)"
  let ?L = "\<lambda>l. module l \<noteq> None \<and> module l \<in> set (map pk ?ms)"
  have m0: "modules (delete_course k d) = filter (\<lambda>m. pk m \<notin> set (map pk ?ms)) (modules d)"
    by (simp add: delete_course_def Let_def)
  have m: "modules (delete_course k d) = filter (\<lambda>m. \<not> Module.course m = Some k) (modules d)"
    unfolding m0 by (rule delete_by_key_filter[OF dm])
  show "length (modules (delete_course k d)) + length ?ms = length (modules d)"
    unfolding m using sum_length_filter_compl[of "\<lambda>m. Module.course m = Some k" "modules d"] by simp
  have l0: "lessons (delete_course k d)
      = filter (\<lambda>l. pk l \<notin> set (map pk (filter ?L (lessons d)))) (lessons d)"
    by (simp add: delete_course_def Let_def)
  have l: "lessons (delete_course k d) = filter (\<lambda>l. \<not> ?L l) (lessons d)"
    unfolding l0 by (rule delete_by_key_filter[OF dl])
  have "set (filter ?L (lessons d)) = lessons_under d k"
    by (rule lessons_under_filter[symmetric])
  moreover from dl have "distinct (filter ?L (lessons d))"
    by (simp add: distinct_map)
  ultimately have "length (filter ?L (lessons d)) = card (lessons_under d k)"
    using distinct_card[of "filter ?L (lessons d)"] by simp
  then have t: "total_lessons d k = length (filter ?L (lessons d))"
    by (simp add: total_lessons_card[OF assms])
  show "length (lessons (delete_course k d)) + total_lessons d k = length (lessons d)"
    unfolding l t using sum_length_filter_compl[of ?L "lessons d"] by simp
qed

text \<open>
  C5. A successful delete of course \<open>k\<close> removes every module of the course, every lesson
  of those modules, every enrollment in the course and every progress row on those
  lessons. Afterwards a lookup of the course, of any of these modules or of any of these
  lessons by primary key answers \<open>NotFound\<close>, and the store holds no module or enrollment
  of course \<open>k\<close>, no lesson under it and no completed progress row on it for any user.
  On a store with unique primary keys, a course with N modules and M lessons leaves N
  modules and M lessons fewer.
\<close>

theorem course_delete_cascades:
  assumes "destroy_course d k = (Inr (), d')"
  shows "get_object (courses d') k = Inl NotFound
    \<and> (\<forall>m \<in> set (modules d). Module.course m = Some k \<longrightarrow>
          m \<notin> set (modules d') \<and> (\<forall>i. pk m = Some i \<longrightarrow> get_object (modules d') i = Inl NotFound))
    \<and> (\<forall>l \<in> lessons_under d k.
          l \<notin> set (lessons d') \<and> (\<forall>i. pk l = Some i \<longrightarrow> get_object (lessons d') i = Inl NotFound))
    \<and> (\<forall>e \<in> set (enrollments d). Enrollment.course e = k \<longrightarrow> e \<notin> set (enrollments d'))
    \<and> (\<forall>p \<in> set (progress d). (\<exists>l \<in> lessons_under d k. pk l = Some (lesson p)) \<longrightarrow>
          p \<notin> set (progress d'))
    \<and> (\<forall>m \<in> set (modules d'). Module.course m \<noteq> Some k)
    \<and> lessons_under d' k = {}
    \<and> (\<forall>e \<in> set (enrollments d'). Enrollment.course e \<noteq> k)
    \<and> completed_rows d' k u = {}
    \<and> (unique_pks d \<longrightarrow>
          length (modules d') + length (filter (\<lambda>m. Module.course m = Some k) (modules d))
            = length (modules d)
        \<and> length (lessons d') + total_lessons d k = length (lessons d))"
proof -
  from assms have d': "d' = delete_course k d"
    by (auto simp: destroy_course_def split: sum.splits)
  let ?ms = "filter (\<lambda>m. Module.course m = Some k) (modules d)"
  let ?ls = "filter (\<lambda>l. module l \<noteq> None \<and> module l \<in> set (map pk ?ms)) (lessons d)"
  let ?ps = "filter (\<lambda>p. Some (lesson p) \<in> set (map pk ?ls)) (progress d)"
  let ?es = "filter (\<lambda>e. Enrollment.course e = k) (enrollments d)"
  have c: "courses d' = filter (\<lambda>c. pk c \<noteq> Some k) (courses d)"
    and m: "modules d' = filter (\<lambda>m. pk m \<notin> set (map pk ?ms)) (modules d)"
    and l: "lessons d' = filter (\<lambda>l. pk l \<notin> set (map pk ?ls)) (lessons d)"
    and p: "progress d' = filter (\<lambda>p. pk p \<notin> set (map pk ?ps)) (progress d)"
    and e: "enrollments d' = filter (\<lambda>e. pk e \<notin> set (map pk ?es)) (enrollments d)"
    by (simp_all add: d' delete_course_def Let_def)
  have lu: "lessons_under d k = set ?ls"
    by (rule lessons_under_filter)
  have 1: "get_object (courses d') k = Inl NotFound"
    unfolding c by (rule get_object_NotFound) (simp add: list_all_iff)
  have 2: "\<forall>m \<in> set (modules d). Module.course m = Some k \<longrightarrow>
          m \<notin> set (modules d') \<and> (\<forall>i. pk m = Some i \<longrightarrow> get_object (modules d') i = Inl NotFound)"
  proof (intro ballI impI)
    fix x assume "x \<in> set (modules d)" "Module.course x = Some k"
    then have v: "x \<in> set ?ms" by simp
    show "x \<notin> set (modules d') \<and> (\<forall>i. pk x = Some i \<longrightarrow> get_object (modules d') i = Inl NotFound)"
      unfolding m using victim_removed[OF v] victim_not_found[OF v] by blast
  qed
  have 3: "\<forall>l \<in> lessons_under d k.
          l \<notin> set (lessons d') \<and> (\<forall>i. pk l = Some i \<longrightarrow> get_object (lessons d') i = Inl NotFound)"
  proof (intro ballI)
    fix x assume "x \<in> lessons_under d k"
    then have v: "x \<in> set ?ls" by (simp only: lu)
    show "x \<notin> set (lessons d') \<and> (\<forall>i. pk x = Some i \<longrightarrow> get_object (lessons d') i = Inl NotFound)"
      unfolding l using victim_removed[OF v] victim_not_found[OF v] by blast
  qed
  have 4: "\<forall>e \<in> set (enrollments d). Enrollment.course e = k \<longrightarrow> e \<notin> set (enrollments d')"
  proof (intro ballI impI)
    fix x assume "x \<in> set (enrollments d)" "Enrollment.course x = k"
    then have v: "x \<in> set ?es" by simp
    show "x \<notin> set (enrollments d')"
      unfolding e by (rule victim_removed[OF v])
  qed
  have 5: "\<forall>p \<in> set (progress d). (\<exists>l \<in> lessons_under d k. pk l = Some (lesson p)) \<longrightarrow>
          p \<notin> set (progress d')"
  proof (intro ballI impI)
    fix x assume x: "x \<in> set (progress d)" and "\<exists>l \<in> lessons_under d k. pk l = Some (lesson x)"
    then obtain y where "y \<in> set ?ls" "pk y = Some (lesson x)" unfolding lu by blast
    then have "Some (lesson x) \<in> set (map pk ?ls)" by force
    with x have v: "x \<in> set ?ps" by simp
    show "x \<notin> set (progress d')"
      unfolding p by (rule victim_removed[OF v])
  qed
  have 6: "\<forall>m \<in> set (modules d'). Module.course m \<noteq> Some k"
    unfolding m using survivor_not_victim[of _ "\<lambda>m. Module.course m = Some k" "modules d"] by blast
  have 7: "lessons_under d' k = {}"
    using 6 by (auto simp: lessons_under_def)
  have 8: "\<forall>e \<in> set (enrollments d'). Enrollment.course e \<noteq> k"
    unfolding e using survivor_not_victim[of _ "\<lambda>e. Enrollment.course e = k" "enrollments d"] by blast
  have 9: "completed_rows d' k u = {}"
    using 7 by (simp add: completed_rows_def)
  have 10: "unique_pks d \<longrightarrow>
          length (modules d') + length (filter (\<lambda>m. Module.course m = Some k) (modules d))
            = length (modules d)
        \<and> length (lessons d') + total_lessons d k = length (lessons d)"
    unfolding d' using course_delete_counts[of d k] by blast
  from 1 2 3 4 5 6 7 8 9 10 show ?thesis by blast
qed

text \<open>
  Deleting course 1 of \<open>example_db\<close> removes its two modules and three lessons, the
  enrollment and the four progress rows on those lessons; module 3, lesson 4 and the
  progress row on lesson 4 belong to course 2 and stay.
\<close>

theorem course_delete_cascades_witness:
  "destroy_course example_db 1 = (Inr (), delete_course 1 example_db)
   \<and> get_object (courses (delete_course 1 example_db)) 1 = Inl NotFound
   \<and> lessons_under (delete_course 1 example_db) 1 = {}
   \<and> map pk (modules (delete_course 1 example_db)) = [Some 3]
   \<and> map pk (lessons (delete_course 1 example_db)) = [Some 4]
   \<and> map pk (progress (delete_course 1 example_db)) = [Some 4]
   \<and> enrollments (delete_course 1 example_db) = []
   \<and> unique_pks example_db
   \<and> length (modules (delete_course 1 example_db)) + 2 = length (modules example_db)
   \<and> length (lessons (delete_course 1 example_db)) + 3 = length (lessons example_db)"
proof -
  have h: "destroy_course example_db 1 = (Inr (), delete_course 1 example_db)"
    by (simp add: destroy_course_def get_object_def example_db_def django_course_def)
  have e: "map pk (modules (delete_course 1 example_db)) = [Some 3]"
    "map pk (lessons (delete_course 1 example_db)) = [Some 4]"
    "map pk (progress (delete_course 1 example_db)) = [Some 4]"
    "enrollments (delete_course 1 example_db) = []"
    by (simp_all add: delete_course_def example_db_def)
  have u: "unique_pks example_db"
    by (simp add: unique_pks_def example_db_def)
  have n: "length (filter (\<lambda>m. Module.course m = Some 1) (modules example_db)) = 2"
    "total_lessons example_db 1 = 3"
    by (simp_all add: total_lessons_def example_db_def)
  from course_delete_cascades[OF h] h e u n show ?thesis by simp
qed


subsection \<open>Slug assignment\<close>

text \<open>
  The loop returns a slug that is not taken, and it is the first candidate that is not.
\<close>

lemma unique_candidate_free: "unique_candidate taken base i candidate \<notin> set taken"
  by (induction taken base i candidate rule: unique_candidate.induct)
     (subst unique_candidate.simps, simp)

lemma unique_candidate_first:
  "(candidate \<notin> set taken \<and> unique_candidate taken base i candidate = candidate)
   \<or> (candidate \<in> set taken \<and>
       (\<exists>k\<ge>i. unique_candidate taken base i candidate = suffixed base k
              \<and> (\<forall>j. i \<le> j \<and> j < k \<longrightarrow> suffixed base j \<in> set taken)))"
proof (induction taken base i candidate rule: unique_candidate.induct)
  case (1 taken base i candidate)
  show ?case
  proof (cases "candidate \<in> set taken")
    case False
    then show ?thesis by (subst unique_candidate.simps) simp
  next
    case True
    have step: "unique_candidate taken base i candidate
        = unique_candidate taken base (i + 1) (suffixed base i)"
      using True by (subst unique_candidate.simps) simp
    from "1.IH"[OF True] show ?thesis
    proof
      assume "suffixed base i \<notin> set taken
          \<and> unique_candidate taken base (i + 1) (suffixed base i) = suffixed base i"
      with True step show ?thesis by auto
    next
      assume "suffixed base i \<in> set taken \<and>
        (\<exists>k\<ge>i + 1. unique_candidate taken base (i + 1) (suffixed base i) = suffixed base k
              \<and> (\<forall>j. i + 1 \<le> j \<and> j < k \<longrightarrow> suffixed base j \<in> set taken))"
      then obtain k where k: "i + 1 \<le> k" "suffixed base i \<in> set taken"
        "unique_candidate taken base (i + 1) (suffixed base i) = suffixed base k"
        "\<forall>j. i + 1 \<le> j \<and> j < k \<longrightarrow> suffixed base j \<in> set taken" by blast
      have "\<forall>j. i \<le> j \<and> j < k \<longrightarrow> suffixed base j \<in> set taken"
      proof (intro allI impI)
        fix j assume "i \<le> j \<and> j < k"
        then have "j = i \<or> (i + 1 \<le> j \<and> j < k)" by auto
        with k show "suffixed base j \<in> set taken" by blast
      qed
      with True step k show ?thesis by (intro disjI2 conjI exI[of _ k]) auto
    qed
  qed
qed

lemma unique_candidate_least:
  "\<exists>k\<ge>1. unique_candidate taken base 2 base = candidate_no base k
        \<and> candidate_no base k \<notin> set taken
        \<and> (\<forall>j. 1 \<le> j \<and> j < k \<longrightarrow> candidate_no base j \<in> set taken)"
proof -
  from unique_candidate_first[where taken = taken and base = base and i = 2 and candidate = base]
  show ?thesis
  proof
    assume "base \<notin> set taken \<and> unique_candidate taken base 2 base = base"
    then show ?thesis by (intro exI[of _ 1]) (simp add: candidate_no_def)
  next
    assume "base \<in> set taken \<and>
       (\<exists>k\<ge>2. unique_candidate taken base 2 base = suffixed base k
              \<and> (\<forall>j. 2 \<le> j \<and> j < k \<longrightarrow> suffixed base j \<in> set taken))"
    then obtain k where k: "2 \<le> k" "base \<in> set taken"
      "unique_candidate taken base 2 base = suffixed base k"
      "\<forall>j. 2 \<le> j \<and> j < k \<longrightarrow> suffixed base j \<in> set taken" by blast
    have free: "suffixed base k \<notin> set taken"
      using unique_candidate_free[of taken base 2 base] k(3) by simp
    have "\<forall>j. 1 \<le> j \<and> j < k \<longrightarrow> candidate_no base j \<in> set taken"
    proof (intro allI impI)
      fix j assume j: "1 \<le> j \<and> j < k"
      show "candidate_no base j \<in> set taken"
      proof (cases "j = 1")
        case True
        with k show ?thesis by (simp add: candidate_no_def)
      next
        case False
        with j have "2 \<le> j \<and> j < k" by simp
        with k False show ?thesis by (simp add: candidate_no_def)
      qed
    qed
    with k free show ?thesis by (intro exI[of _ k]) (simp add: candidate_no_def)
  qed
qed

lemma suffixed_2: "suffixed base 2 = base @ ''-2''"
  by (simp add: suffixed_def str_nat.simps digit_char_def)

lemma unique_candidate_base:
  "base \<notin> set taken \<Longrightarrow> unique_candidate taken base 2 base = base"
  by (subst unique_candidate.simps) simp

lemma unique_candidate_second:
  assumes "base \<in> set taken" and "base @ ''-2'' \<notin> set taken"
  shows "unique_candidate taken base 2 base = base @ ''-2''"
proof -
  have "unique_candidate taken base 2 base = unique_candidate taken base (2 + 1) (suffixed base 2)"
    using assms(1) by (subst unique_candidate.simps) simp
  also have "\<dots> = suffixed base 2"
    using assms(2) by (subst unique_candidate.simps) (simp add: suffixed_2)
  finally show ?thesis by (simp add: suffixed_2)
qed

text \<open>
  A write that the database does not refuse and that conflicts with no other row
  succeeds; the slug the loop assigns conflicts with no other row.
\<close>

lemma db_write_refused:
  "refused inst \<Longrightarrow> db_write conflict refused tbl inst = Inl IntegrityError"
  by (simp add: db_write_def)

lemma db_write_succeeds:
  assumes "\<not> refused inst" and "\<not> list_ex (\<lambda>r. pk r \<noteq> pk inst \<and> conflict r inst) tbl"
  shows "\<exists>w tbl'. db_write conflict refused tbl inst = Inr (w, tbl')"
  using assms by (simp add: db_write_def Let_def split: option.splits)

lemma db_write_insert:
  assumes "\<not> refused inst" and "\<not> list_ex (\<lambda>r. pk r \<noteq> pk inst \<and> conflict r inst) tbl"
    and "pk inst = None"
  shows "db_write conflict refused tbl inst
     = Inr (inst\<lparr>pk := Some (next_pk tbl)\<rparr>, tbl @ [inst\<lparr>pk := Some (next_pk tbl)\<rparr>])"
  using assms by (simp add: db_write_def Let_def)

lemma assign_slug_pk [simp]: "pk (assign_slug slugify tbl inst) = pk inst"
  by (simp add: assign_slug_def Let_def)

lemma assign_slug_fresh:
  assumes "slug inst = []" and "name inst \<noteq> []"
  shows "slug (assign_slug slugify tbl inst)
      = unique_candidate (taken_slugs tbl inst) (slug_base slugify inst) 2 (slug_base slugify inst)"
  using assms by (simp add: assign_slug_def Let_def)

lemma assign_slug_row:
  assumes "slug inst = []" and "name inst \<noteq> []"
  shows "assign_slug slugify tbl inst = inst\<lparr>slug := slug (assign_slug slugify tbl inst)\<rparr>"
  using assms by (simp add: assign_slug_def Let_def)

lemma assigned_no_conflict:
  assumes "slug inst = []" and "name inst \<noteq> []"
  shows "\<not> list_ex (\<lambda>r. pk r \<noteq> pk ((assign_slug slugify tbl inst)\<lparr>updated_at := now\<rparr>)
                       \<and> slug_conflict r ((assign_slug slugify tbl inst)\<lparr>updated_at := now\<rparr>)) tbl"
proof
  assume "list_ex (\<lambda>r. pk r \<noteq> pk ((assign_slug slugify tbl inst)\<lparr>updated_at := now\<rparr>)
                       \<and> slug_conflict r ((assign_slug slugify tbl inst)\<lparr>updated_at := now\<rparr>)) tbl"
  then obtain r where r: "r \<in> set tbl" "pk r \<noteq> pk inst"
     "slug r = slug (assign_slug slugify tbl inst)"
    by (auto simp: list_ex_iff slug_conflict_def)
  from r(1,2) have "r \<in> set (filter (\<lambda>x. pk x \<noteq> pk inst) tbl)" by simp
  then have "slug r \<in> slug ` set (filter (\<lambda>x. pk x \<noteq> pk inst) tbl)" by (rule imageI)
  with r(3) have "slug (assign_slug slugify tbl inst) \<in> set (taken_slugs tbl inst)"
    by (simp add: taken_slugs_def)
  then show False
    using unique_candidate_free[of "taken_slugs tbl inst" "slug_base slugify inst" 2 "slug_base slugify inst"]
    by (simp add: assign_slug_fresh[OF assms])
qed

lemma save_fresh:
  assumes "slug inst = []" and "name inst \<noteq> []"
    and "\<not> refused ((assign_slug slugify tbl inst)\<lparr>updated_at := now\<rparr>)"
  shows "\<exists>w tbl'. SlugMixin_save slugify now refused tbl inst = Inr (w, tbl') \<and> w \<in> set tbl'
            \<and> slug w = slug (assign_slug slugify tbl inst)"
proof -
  let ?i = "(assign_slug slugify tbl inst)\<lparr>updated_at := now\<rparr>"
  from db_write_succeeds[where conflict = slug_conflict and refused = refused and tbl = tbl
      and inst = ?i, OF assms(3) assigned_no_conflict[OF assms(1,2)]]
  obtain w tbl' where w: "db_write slug_conflict refused tbl ?i = Inr (w, tbl')" by blast
  have eq: "w = ?i\<lparr>pk := pk w\<rparr>" by (rule db_write_written(2)[OF w])
  have "slug w = slug ?i" by (subst eq) simp
  with w db_write_written(1)[OF w] show ?thesis by (simp add: SlugMixin_save_def)
qed

lemma save_refused:
  assumes "refused ((assign_slug slugify tbl inst)\<lparr>updated_at := now\<rparr>)"
  shows "SlugMixin_save slugify now refused tbl inst = Inl IntegrityError"
  using assms by (simp add: SlugMixin_save_def db_write_refused)

lemma save_empty_name:
  assumes "slug inst = []" and "name inst = []"
  shows "assign_slug slugify tbl inst = inst"
    and "\<not> (refused (inst\<lparr>updated_at := now\<rparr>) \<or> list_ex (\<lambda>r. pk r \<noteq> pk inst \<and> slug r = []) tbl) \<Longrightarrow>
           \<exists>w tbl'. SlugMixin_save slugify now refused tbl inst = Inr (w, tbl') \<and> w \<in> set tbl'
             \<and> slug w = []"
    and "refused (inst\<lparr>updated_at := now\<rparr>) \<or> list_ex (\<lambda>r. pk r \<noteq> pk inst \<and> slug r = []) tbl \<Longrightarrow>
           SlugMixin_save slugify now refused tbl inst = Inl IntegrityError"
proof -
  show a: "assign_slug slugify tbl inst = inst"
    using assms by (simp add: assign_slug_def)
  let ?i = "inst\<lparr>updated_at := now\<rparr>"
  {
    assume n: "\<not> (refused ?i \<or> list_ex (\<lambda>r. pk r \<noteq> pk inst \<and> slug r = []) tbl)"
    then have nr: "\<not> refused ?i" by simp
    from n have nc: "\<not> list_ex (\<lambda>r. pk r \<noteq> pk ?i \<and> slug_conflict r ?i) tbl"
      using assms by (simp add: slug_conflict_def)
    from db_write_succeeds[where conflict = slug_conflict and refused = refused and tbl = tbl
        and inst = ?i, OF nr nc]
    obtain w tbl' where w: "db_write slug_conflict refused tbl ?i = Inr (w, tbl')" by blast
    have eq: "w = ?i\<lparr>pk := pk w\<rparr>" by (rule db_write_written(2)[OF w])
    have "slug w = slug ?i" by (subst eq) simp
    with w db_write_written(1)[OF w] assms a
    show "\<exists>w tbl'. SlugMixin_save slugify now refused tbl inst = Inr (w, tbl') \<and> w \<in> set tbl'
        \<and> slug w = []"
      by (simp add: SlugMixin_save_def)
  }
  {
    assume "refused ?i \<or> list_ex (\<lambda>r. pk r \<noteq> pk inst \<and> slug r = []) tbl"
    then have "refused ?i \<or> list_ex (\<lambda>r. pk r \<noteq> pk ?i \<and> slug_conflict r ?i) tbl"
      using assms by (simp add: slug_conflict_def)
    then show "SlugMixin_save slugify now refused tbl inst = Inl IntegrityError"
      by (simp add: SlugMixin_save_def a db_write_def)
  }
qed

lemma save_keeps_slug:
  assumes "slug inst \<noteq> []"
  shows "assign_slug slugify tbl inst = inst"
    and "SlugMixin_save slugify now refused tbl inst = Inr (w, tbl') \<Longrightarrow> slug w = slug inst"
proof -
  show a: "assign_slug slugify tbl inst = inst"
    using assms by (simp add: assign_slug_def)
  assume "SlugMixin_save slugify now refused tbl inst = Inr (w, tbl')"
  then have w: "db_write slug_conflict refused tbl (inst\<lparr>updated_at := now\<rparr>) = Inr (w, tbl')"
    by (simp add: SlugMixin_save_def a)
  have eq: "w = inst\<lparr>updated_at := now, pk := pk w\<rparr>" by (rule db_write_written(2)[OF w])
  show "slug w = slug inst" by (subst eq) simp
qed

lemma save_same_name_twice:
  fixes inst inst2 :: "'a SlugMixin_scheme"
  assumes new: "pk inst = None" "pk inst2 = None" "slug inst = []" "slug inst2 = []"
    and nm: "name inst \<noteq> []" "name inst2 = name inst"
    and free: "slug_base slugify inst \<notin> set (map slug tbl)"
              "slug_base slugify inst @ ''-2'' \<notin> set (map slug tbl)"
    and ok: "\<not> refused (inst\<lparr>slug := slug_base slugify inst, updated_at := now\<rparr>)"
            "\<not> refused (inst2\<lparr>slug := slug_base slugify inst @ ''-2'', updated_at := now'\<rparr>)"
  shows "\<exists>w1 tbl1 w2 tbl2.
           SlugMixin_save slugify now refused tbl inst = Inr (w1, tbl1)
         \<and> slug w1 = slug_base slugify inst
         \<and> SlugMixin_save slugify now' refused tbl1 inst2 = Inr (w2, tbl2)
         \<and> slug w2 = slug_base slugify inst @ ''-2''"
proof -
  let ?x = "slug_base slugify inst"
  have sub: "set (taken_slugs tbl inst) \<subseteq> set (map slug tbl)"
    by (auto simp: taken_slugs_def)
  with free have "?x \<notin> set (taken_slugs tbl inst)" by blast
  then have s1: "slug (assign_slug slugify tbl inst) = ?x"
    by (simp add: assign_slug_fresh[OF new(3) nm(1)] unique_candidate_base)
  let ?i = "(assign_slug slugify tbl inst)\<lparr>updated_at := now\<rparr>"
  have i: "?i = inst\<lparr>slug := ?x, updated_at := now\<rparr>"
    by (subst assign_slug_row[OF new(3) nm(1)]) (simp only: s1)
  have r1: "\<not> refused ?i" unfolding i by (rule ok(1))
  let ?w1 = "?i\<lparr>pk := Some (next_pk tbl)\<rparr>"
  let ?tbl1 = "tbl @ [?w1]"
  have sv1: "SlugMixin_save slugify now refused tbl inst = Inr (?w1, ?tbl1)"
    unfolding SlugMixin_save_def
    by (rule db_write_insert[where conflict = slug_conflict and refused = refused and tbl = tbl
          and inst = ?i, OF r1 assigned_no_conflict[OF new(3) nm(1)]]) (simp add: new)
  have w1: "slug ?w1 = ?x" using s1 by simp
  have b2: "slug_base slugify inst2 = ?x" by (simp add: slug_base_def nm)
  have t2: "taken_slugs ?tbl1 inst2 = map slug (filter (\<lambda>r. pk r \<noteq> None) tbl) @ [?x]"
    using s1 by (simp add: taken_slugs_def new)
  have in2: "?x \<in> set (taken_slugs ?tbl1 inst2)" by (simp only: t2) simp
  have "?x @ ''-2'' \<noteq> ?x" by simp
  with free(2) have out2: "?x @ ''-2'' \<notin> set (taken_slugs ?tbl1 inst2)"
    by (simp only: t2) auto
  have nm2: "name inst2 \<noteq> []" using nm by simp
  have s2: "slug (assign_slug slugify ?tbl1 inst2) = ?x @ ''-2''"
    by (simp only: assign_slug_fresh[OF new(4) nm2] b2 unique_candidate_second[OF in2 out2])
  have i2: "(assign_slug slugify ?tbl1 inst2)\<lparr>updated_at := now'\<rparr>
      = inst2\<lparr>slug := ?x @ ''-2'', updated_at := now'\<rparr>"
    by (subst assign_slug_row[OF new(4) nm2]) (simp only: s2)
  have r2: "\<not> refused ((assign_slug slugify ?tbl1 inst2)\<lparr>updated_at := now'\<rparr>)"
    unfolding i2 by (rule ok(2))
  from save_fresh[where refused = refused and slugify = slugify and tbl = ?tbl1
      and inst = inst2 and now = now', OF new(4) nm2 r2]
  obtain w2 tbl2 where "SlugMixin_save slugify now' refused ?tbl1 inst2 = Inr (w2, tbl2)"
    "slug w2 = slug (assign_slug slugify ?tbl1 inst2)" by blast
  with sv1 w1 s2 show ?thesis by (intro exI[of _ ?w1] exI[of _ ?tbl1] exI[of _ w2] exI[of _ tbl2]) simp
qed

text \<open>
  The characters of an assigned slug: those of \<open>slugify\<close>, the hyphen and digits.
  \<open>slugify_ascii\<close> yields lower-case letters, digits, underscores and hyphens only.
\<close>

lemma digit_slug_char:
  assumes "n < 10"
  shows "slug_char (digit_char n)"
proof -
  have "length ''0123456789'' = 10" by simp
  with assms have "n < length ''0123456789''" by (simp only:)
  then have "digit_char n \<in> set ''0123456789''"
    unfolding digit_char_def by (rule nth_mem)
  then show ?thesis by (auto simp: slug_char_def)
qed

lemma str_nat_slug_chars: "list_all slug_char (str_nat n)"
proof (induction n rule: str_nat.induct)
  case (1 n)
  show ?case
  proof (cases "n < 10")
    case True
    then show ?thesis by (subst str_nat.simps) (simp add: digit_slug_char)
  next
    case False
    with "1.IH" show ?thesis by (subst str_nat.simps) (simp add: digit_slug_char)
  qed
qed

lemma suffixed_slug_chars: "list_all slug_char base \<Longrightarrow> list_all slug_char (suffixed base i)"
  by (simp add: suffixed_def str_nat_slug_chars slug_char_def)

lemma unique_candidate_slug_chars:
  "list_all slug_char base \<Longrightarrow> list_all slug_char candidate
    \<Longrightarrow> list_all slug_char (unique_candidate taken base i candidate)"
proof (induction taken base i candidate rule: unique_candidate.induct)
  case (1 taken base i candidate)
  show ?case
  proof (cases "candidate \<in> set taken")
    case True
    with "1.IH"[OF True "1.prems"(1) suffixed_slug_chars[OF "1.prems"(1)]]
    show ?thesis by (subst unique_candidate.simps) simp
  next
    case False
    with "1.prems" show ?thesis by (subst unique_candidate.simps) simp
  qed
qed

lemma assigned_slug_chars:
  assumes "slug inst = []" and "name inst \<noteq> []" and "\<forall>s. list_all slug_char (slugify s)"
  shows "list_all slug_char (slug (assign_slug slugify tbl inst))"
proof -
  from assms(3) have "list_all slug_char (slugify (name inst))" by blast
  then have "list_all slug_char (slug_base slugify inst)"
    unfolding slug_base_def list_all_iff using in_set_takeD by fast
  then show ?thesis
    unfolding assign_slug_fresh[OF assms(1,2)] by (intro unique_candidate_slug_chars)
qed

lemma ascii_lower_upper:
  "c \<in> set ''ABCDEFGHIJKLMNOPQRSTUVWXYZ'' \<Longrightarrow> slug_char (ascii_lower c)"
  by (auto simp: ascii_lower_def slug_char_def)

lemma ascii_lower_other:
  "c \<notin> set ''ABCDEFGHIJKLMNOPQRSTUVWXYZ'' \<Longrightarrow> ascii_lower c = c"
  by (simp add: ascii_lower_def)

lemma word_char_lower: "is_word_char (ascii_lower c) \<Longrightarrow> slug_char (ascii_lower c)"
proof (cases "c \<in> set ''ABCDEFGHIJKLMNOPQRSTUVWXYZ''")
  case True
  then show ?thesis by (rule ascii_lower_upper)
next
  case False
  assume "is_word_char (ascii_lower c)"
  with False ascii_lower_other[OF False] show ?thesis
    by (auto simp: is_word_char_def slug_char_def)
qed

lemma collapse_separators_chars:
  "list_all (\<lambda>c. is_separator c \<or> slug_char c) s \<Longrightarrow> list_all slug_char (collapse_separators s)"
proof (induction s rule: collapse_separators.induct)
  case 1
  then show ?case by simp
next
  case (2 c cs)
  show ?case
  proof (cases "is_separator c")
    case True
    from "2.prems" have "list_all (\<lambda>c. is_separator c \<or> slug_char c) (dropWhile is_separator cs)"
      unfolding list_all_iff using set_dropWhileD by fastforce
    with "2.IH"(1)[OF True] True show ?thesis by (simp add: slug_char_def)
  next
    case False
    with "2.prems" "2.IH"(2)[OF False] show ?thesis by simp
  qed
qed

lemma slugify_ascii_chars: "list_all slug_char (slugify_ascii s)"
proof -
  let ?f = "filter (\<lambda>c. is_word_char c \<or> is_space_char c \<or> c = CHR ''-'') (map ascii_lower s)"
  have "list_all (\<lambda>c. is_separator c \<or> slug_char c) ?f"
    unfolding list_all_iff using word_char_lower by (auto simp: is_separator_def)
  then have c: "list_all slug_char (collapse_separators ?f)"
    by (rule collapse_separators_chars)
  have "set (strip_chars P xs) \<subseteq> set xs" for P and xs :: string
  proof
    fix x assume "x \<in> set (strip_chars P xs)"
    then have "x \<in> set (dropWhile P (rev (dropWhile P xs)))" by (simp add: strip_chars_def)
    then have "x \<in> set (rev (dropWhile P xs))" by (rule set_dropWhileD)
    then have "x \<in> set (dropWhile P xs)" by simp
    then show "x \<in> set xs" by (rule set_dropWhileD)
  qed
  with c show ?thesis unfolding slugify_ascii_def list_all_iff by blast
qed

lemma slugify_ascii_Intro: "slugify_ascii ''Intro'' = ''intro''"
  by (simp add: slugify_ascii_def strip_chars_def ascii_lower_def is_word_char_def
      is_space_char_def is_separator_def)

lemma slugify_ascii_Setup: "slugify_ascii ''Setup'' = ''setup''"
  by (simp add: slugify_ascii_def strip_chars_def ascii_lower_def is_word_char_def
      is_space_char_def is_separator_def)

lemma assign_Setup_example:
  "slug (assign_slug slugify_ascii (lessons example_db) (new_lesson 9 ''Setup'' m)) = ''setup-3''"
  by (simp add: assign_slug_def slug_base_def taken_slugs_def new_lesson_def example_db_def
      slugify_ascii_Setup unique_candidate.simps suffixed_def str_nat.simps digit_char_def)

text \<open>
  \<^verbatim>\<open>publish\<close>, the save restricted to \<^verbatim>\<open>is_published\<close>, leaves every slug as stored.
\<close>

lemma publish_keeps_slugs: "map slug (courses (snd (publish d k))) = map slug (courses d)"
proof -
  have "map slug (map (\<lambda>c. if pk c = Some k then c\<lparr>is_published := True\<rparr> else c) cs) = map slug cs"
    for cs :: "Course list"
    by (induction cs) simp_all
  then show ?thesis by (simp add: publish_def split: sum.splits)
qed

lemma assign_Intro_example:
  "slug (assign_slug slugify_ascii (modules example_db) (new_module 9 ''Intro'' c)) = ''intro-3''"
  by (simp add: assign_slug_def slug_base_def taken_slugs_def new_module_def example_db_def
      slugify_ascii_Intro unique_candidate.simps suffixed_def str_nat.simps digit_char_def)

text \<open>
  C6, as stated, fails on the code. The claim appends a suffix until the slug is unique in
  the entity's uniqueness scope, which for a module is its course. The loop checks all
  modules: a module named \<open>Intro\<close> created in course 2, while the only module \<open>intro\<close>
  belongs to course 1, gets \<open>intro-2\<close> although no module of course 2 has the slug
  \<open>intro\<close>. And an entity with empty name does not always save without failure: the
  slug stays empty, and a second course with the empty slug is refused by the unique
  constraint.
\<close>

theorem slug_scope_counterexample:
  "slug (assign_slug slugify_ascii [intro_module] (new_module 9 ''Intro'' (Some 2))) = ''intro-2''
   \<and> filter (\<lambda>m. Module.course m = Some 2 \<and> slug m = ''intro'') [intro_module] = []
   \<and> save_course slugify_ascii 9 (example_db\<lparr>courses := [unnamed_course (Some 1)]\<rparr>)
         (unnamed_course None)
       = Inl IntegrityError"
  by (simp add: assign_slug_def slug_base_def taken_slugs_def new_module_def intro_module_def
      slugify_ascii_Intro unique_candidate.simps suffixed_def str_nat.simps digit_char_def
      save_course_def SlugMixin_save_def db_write_def unnamed_course_def slug_conflict_def)

text \<open>
  C6, amended. For every entity with the slug mixin (\<open>'a SlugMixin_scheme\<close>: Course, Module,
  Lesson, Tag, Topic) and its save without \<^verbatim>\<open>update_fields\<close>, with \<open>taken_slugs\<close> the
  slugs of all other rows of the same model and \<open>refused\<close> the constraints of the model's
  table other than the unique slug (a module or lesson without parent, or with a parent
  that is not stored):
  \<^item> saved with no slug and a non-empty name, the slug assigned is \<open>slugify name\<close> cut to at
    most 200 characters when that is not taken, and otherwise the first of \<open>base-2\<close>,
    \<open>base-3\<close>, ... that is not taken; it is made of lower-case letters, digits,
    underscores and hyphens when the results of \<open>slugify\<close> are; the save ends with
    \<^verbatim>\<open>IntegrityError\<close> when the database refuses the row for another constraint, and
    otherwise succeeds and stores that slug: the slug assigned never makes it fail;
  \<^item> two new entities with the same name, saved one after the other into a table that
    holds neither \<open>x\<close> nor \<open>x-2\<close>, neither of them refused for another constraint, get
    the slugs \<open>x\<close> and \<open>x-2\<close>;
  \<^item> with an empty name the slug stays empty; the save ends with \<^verbatim>\<open>IntegrityError\<close> when
    another row already has the empty slug (or the row is refused for another
    constraint), and otherwise succeeds;
  \<^item> a non-empty slug is never changed by a save.
\<close>

theorem slug_assignment:
  fixes inst inst2 :: "'a SlugMixin_scheme"
  shows
  "(slug inst = [] \<and> name inst \<noteq> [] \<longrightarrow>
      length (slug_base slugify inst) \<le> 200
    \<and> (\<exists>k\<ge>1. slug (assign_slug slugify tbl inst) = candidate_no (slug_base slugify inst) k
          \<and> candidate_no (slug_base slugify inst) k \<notin> set (taken_slugs tbl inst)
          \<and> (\<forall>j. 1 \<le> j \<and> j < k \<longrightarrow>
                 candidate_no (slug_base slugify inst) j \<in> set (taken_slugs tbl inst)))
    \<and> ((\<forall>s. list_all slug_char (slugify s)) \<longrightarrow>
          list_all slug_char (slug (assign_slug slugify tbl inst)))
    \<and> (if refused ((assign_slug slugify tbl inst)\<lparr>updated_at := now\<rparr>)
        then SlugMixin_save slugify now refused tbl inst = Inl IntegrityError
        else \<exists>w tbl'. SlugMixin_save slugify now refused tbl inst = Inr (w, tbl') \<and> w \<in> set tbl'
               \<and> slug w = slug (assign_slug slugify tbl inst)))
 \<and> (pk inst = None \<and> pk inst2 = None \<and> slug inst = [] \<and> slug inst2 = []
      \<and> name inst \<noteq> [] \<and> name inst2 = name inst
      \<and> slug_base slugify inst \<notin> set (map slug tbl)
      \<and> slug_base slugify inst @ ''-2'' \<notin> set (map slug tbl)
      \<and> \<not> refused (inst\<lparr>slug := slug_base slugify inst, updated_at := now\<rparr>)
      \<and> \<not> refused (inst2\<lparr>slug := slug_base slugify inst @ ''-2'', updated_at := now'\<rparr>) \<longrightarrow>
      (\<exists>w1 tbl1 w2 tbl2.
           SlugMixin_save slugify now refused tbl inst = Inr (w1, tbl1)
         \<and> slug w1 = slug_base slugify inst
         \<and> SlugMixin_save slugify now' refused tbl1 inst2 = Inr (w2, tbl2)
         \<and> slug w2 = slug_base slugify inst @ ''-2''))
 \<and> (slug inst = [] \<and> name inst = [] \<longrightarrow>
      assign_slug slugify tbl inst = inst
    \<and> (if refused (inst\<lparr>updated_at := now\<rparr>) \<or> list_ex (\<lambda>r. pk r \<noteq> pk inst \<and> slug r = []) tbl
        then SlugMixin_save slugify now refused tbl inst = Inl IntegrityError
        else \<exists>w tbl'. SlugMixin_save slugify now refused tbl inst = Inr (w, tbl') \<and> w \<in> set tbl'
               \<and> slug w = []))
 \<and> (slug inst \<noteq> [] \<longrightarrow>
      assign_slug slugify tbl inst = inst
    \<and> (\<forall>w tbl'. SlugMixin_save slugify now refused tbl inst = Inr (w, tbl') \<longrightarrow> slug w = slug inst))"
proof (intro conjI impI)
  show "length (slug_base slugify inst) \<le> 200" by (simp add: slug_base_def)
next
  assume "slug inst = [] \<and> name inst \<noteq> []"
  then have a: "slug inst = []" "name inst \<noteq> []" by simp_all
  show "\<exists>k\<ge>1. slug (assign_slug slugify tbl inst) = candidate_no (slug_base slugify inst) k
          \<and> candidate_no (slug_base slugify inst) k \<notin> set (taken_slugs tbl inst)
          \<and> (\<forall>j. 1 \<le> j \<and> j < k \<longrightarrow>
                 candidate_no (slug_base slugify inst) j \<in> set (taken_slugs tbl inst))"
    unfolding assign_slug_fresh[OF a] by (rule unique_candidate_least)
  show "list_all slug_char (slug (assign_slug slugify tbl inst))"
    if "\<forall>s. list_all slug_char (slugify s)"
    by (rule assigned_slug_chars[OF a that])
  show "if refused ((assign_slug slugify tbl inst)\<lparr>updated_at := now\<rparr>)
        then SlugMixin_save slugify now refused tbl inst = Inl IntegrityError
        else \<exists>w tbl'. SlugMixin_save slugify now refused tbl inst = Inr (w, tbl') \<and> w \<in> set tbl'
               \<and> slug w = slug (assign_slug slugify tbl inst)"
  proof (cases "refused ((assign_slug slugify tbl inst)\<lparr>updated_at := now\<rparr>)")
    case True
    with save_refused[where refused = refused and slugify = slugify and tbl = tbl
        and inst = inst and now = now, OF True]
    show ?thesis by simp
  next
    case False
    with save_fresh[where refused = refused and slugify = slugify and tbl = tbl
        and inst = inst and now = now, OF a False]
    show ?thesis by simp
  qed
next
  assume "pk inst = None \<and> pk inst2 = None \<and> slug inst = [] \<and> slug inst2 = []
      \<and> name inst \<noteq> [] \<and> name inst2 = name inst
      \<and> slug_base slugify inst \<notin> set (map slug tbl)
      \<and> slug_base slugify inst @ ''-2'' \<notin> set (map slug tbl)
      \<and> \<not> refused (inst\<lparr>slug := slug_base slugify inst, updated_at := now\<rparr>)
      \<and> \<not> refused (inst2\<lparr>slug := slug_base slugify inst @ ''-2'', updated_at := now'\<rparr>)"
  then show "\<exists>w1 tbl1 w2 tbl2.
           SlugMixin_save slugify now refused tbl inst = Inr (w1, tbl1)
         \<and> slug w1 = slug_base slugify inst
         \<and> SlugMixin_save slugify now' refused tbl1 inst2 = Inr (w2, tbl2)
         \<and> slug w2 = slug_base slugify inst @ ''-2''"
    by (intro save_same_name_twice) simp_all
next
  assume "slug inst = [] \<and> name inst = []"
  then have a: "slug inst = []" "name inst = []" by simp_all
  show "assign_slug slugify tbl inst = inst" by (rule save_empty_name(1)[OF a])
  show "if refused (inst\<lparr>updated_at := now\<rparr>) \<or> list_ex (\<lambda>r. pk r \<noteq> pk inst \<and> slug r = []) tbl
        then SlugMixin_save slugify now refused tbl inst = Inl IntegrityError
        else \<exists>w tbl'. SlugMixin_save slugify now refused tbl inst = Inr (w, tbl') \<and> w \<in> set tbl'
               \<and> slug w = []"
    using save_empty_name(2,3)[OF a, of refused now tbl slugify] by simp
next
  assume a: "slug inst \<noteq> []"
  show "assign_slug slugify tbl inst = inst" by (rule save_keeps_slug(1)[OF a])
  show "\<forall>w tbl'. SlugMixin_save slugify now refused tbl inst = Inr (w, tbl') \<longrightarrow> slug w = slug inst"
    using save_keeps_slug(2)[OF a] by blast
qed

text \<open>
  The cases on examples. A third module \<open>Intro\<close> saved into \<open>example_db\<close> (whose modules
  hold \<open>intro\<close> and \<open>intro-2\<close>) for course 1 gets \<open>intro-3\<close>, made of slug characters; the
  same module without course, or for course 9, which is not stored, is refused. Two
  modules \<open>Intro\<close> saved into an empty table get \<open>intro\<close> and \<open>intro-2\<close>. A module
  without name keeps the empty slug. The stored module keeps its slug. A lesson \<open>Setup\<close>
  for module 2 gets \<open>setup-3\<close>: \<open>setup\<close> and \<open>setup-2\<close> are the slugs of lessons of
  modules 1 and 3; without module it is refused.
\<close>

theorem slug_assignment_witness:
  "(\<exists>w tbl'. save_module slugify_ascii 9 example_db (new_module 9 ''Intro'' (Some 1))
                = Inr (w, tbl') \<and> w \<in> set tbl' \<and> slug w = ''intro-3''
                \<and> list_all slug_char (slug w))
   \<and> save_module slugify_ascii 9 example_db (new_module 9 ''Intro'' None) = Inl IntegrityError
   \<and> save_module slugify_ascii 9 example_db (new_module 9 ''Intro'' (Some 9)) = Inl IntegrityError
   \<and> (\<exists>w1 tbl1 w2 tbl2.
         SlugMixin_save slugify_ascii 9 (module_refused example_db) []
             (new_module 9 ''Intro'' (Some 1)) = Inr (w1, tbl1)
       \<and> slug w1 = ''intro''
       \<and> SlugMixin_save slugify_ascii 10 (module_refused example_db) tbl1
             (new_module 10 ''Intro'' (Some 2)) = Inr (w2, tbl2)
       \<and> slug w2 = ''intro-2'')
   \<and> (\<exists>w tbl'. save_module slugify_ascii 9 example_db (new_module 9 [] (Some 1))
                = Inr (w, tbl') \<and> w \<in> set tbl' \<and> slug w = [])
   \<and> assign_slug slugify_ascii [intro_module] intro_module = intro_module
   \<and> (\<exists>w tbl'. save_lesson slugify_ascii 9 example_db (new_lesson 9 ''Setup'' (Some 2))
                = Inr (w, tbl') \<and> w \<in> set tbl' \<and> slug w = ''setup-3'')
   \<and> save_lesson slugify_ascii 9 example_db (new_lesson 9 ''Setup'' None) = Inl IntegrityError"
proof -
  let ?R = "module_refused example_db"
  let ?T = "modules example_db"
  have R: "?R m \<longleftrightarrow> Module.course m \<noteq> Some 1 \<and> Module.course m \<noteq> Some 2
      \<and> Module.course m \<noteq> Some 3" for m
    by (cases "Module.course m")
       (auto simp: module_refused_def references_def example_db_def django_course_def)
  have ac: "Module.course ((assign_slug slugify_ascii tbl m)\<lparr>updated_at := t\<rparr>) = Module.course m"
    for tbl t and m :: Module
    by (simp add: assign_slug_def Let_def)
  have st: "slug (new_module t n c) = [] \<and> name (new_module t n c) = n" for t n c
    by (simp add: new_module_def)
  have ch: "\<forall>s. list_all slug_char (slugify_ascii s)" by (simp add: slugify_ascii_chars)
  let ?m = "new_module 9 ''Intro'' (Some 1)"
  have pm: "slug ?m = [] \<and> name ?m \<noteq> []" by (simp add: new_module_def)
  note m = slug_assignment[where inst = ?m and slugify = slugify_ascii and tbl = ?T
      and now = 9 and refused = ?R, THEN conjunct1, THEN mp, OF pm]
  have nr: "\<not> ?R ((assign_slug slugify_ascii ?T ?m)\<lparr>updated_at := 9\<rparr>)"
    unfolding R ac by (simp add: new_module_def)
  from m ch have "list_all slug_char (slug (assign_slug slugify_ascii ?T ?m))" by blast
  moreover from m[THEN conjunct2, THEN conjunct2, THEN conjunct2] nr
  have "\<exists>w tbl'. SlugMixin_save slugify_ascii 9 ?R ?T ?m = Inr (w, tbl') \<and> w \<in> set tbl'
         \<and> slug w = slug (assign_slug slugify_ascii ?T ?m)"
    by (simp only: if_False)
  ultimately have 1: "\<exists>w tbl'. save_module slugify_ascii 9 example_db ?m
                = Inr (w, tbl') \<and> w \<in> set tbl' \<and> slug w = ''intro-3''
                \<and> list_all slug_char (slug w)"
    unfolding save_module_def assign_Intro_example by auto
  let ?n = "new_module 9 ''Intro'' None"
  have pn: "slug ?n = [] \<and> name ?n \<noteq> []" by (simp add: new_module_def)
  note n = slug_assignment[where inst = ?n and slugify = slugify_ascii and tbl = ?T
      and now = 9 and refused = ?R, THEN conjunct1, THEN mp, OF pn]
  have rn: "?R ((assign_slug slugify_ascii ?T ?n)\<lparr>updated_at := 9\<rparr>)"
    unfolding R ac by (simp add: new_module_def)
  from n[THEN conjunct2, THEN conjunct2, THEN conjunct2] rn
  have 2: "save_module slugify_ascii 9 example_db ?n = Inl IntegrityError"
    unfolding save_module_def by (simp only: if_True)
  let ?o = "new_module 9 ''Intro'' (Some 9)"
  have po: "slug ?o = [] \<and> name ?o \<noteq> []" by (simp add: new_module_def)
  note o = slug_assignment[where inst = ?o and slugify = slugify_ascii and tbl = ?T
      and now = 9 and refused = ?R, THEN conjunct1, THEN mp, OF po]
  have ro: "?R ((assign_slug slugify_ascii ?T ?o)\<lparr>updated_at := 9\<rparr>)"
    unfolding R ac by (simp add: new_module_def)
  from o[THEN conjunct2, THEN conjunct2, THEN conjunct2] ro
  have 3: "save_module slugify_ascii 9 example_db ?o = Inl IntegrityError"
    unfolding save_module_def by (simp only: if_True)
  let ?m2 = "new_module 10 ''Intro'' (Some 2)"
  have b: "slug_base slugify_ascii ?m = ''intro''"
    by (simp add: slug_base_def new_module_def slugify_ascii_Intro)
  have p2: "pk ?m = None \<and> pk ?m2 = None \<and> slug ?m = [] \<and> slug ?m2 = []
      \<and> name ?m \<noteq> [] \<and> name ?m2 = name ?m
      \<and> slug_base slugify_ascii ?m \<notin> set (map slug [])
      \<and> slug_base slugify_ascii ?m @ ''-2'' \<notin> set (map slug [])
      \<and> \<not> ?R (?m\<lparr>slug := slug_base slugify_ascii ?m, updated_at := 9\<rparr>)
      \<and> \<not> ?R (?m2\<lparr>slug := slug_base slugify_ascii ?m @ ''-2'', updated_at := 10\<rparr>)"
    unfolding R by (simp add: new_module_def)
  from slug_assignment[where inst = ?m and slugify = slugify_ascii and tbl = "[]" and now = 9
      and ?inst2.0 = ?m2 and now' = 10 and refused = ?R,
      THEN conjunct2, THEN conjunct1, THEN mp, OF p2]
  have 4: "\<exists>w1 tbl1 w2 tbl2.
         SlugMixin_save slugify_ascii 9 ?R [] ?m = Inr (w1, tbl1)
       \<and> slug w1 = ''intro''
       \<and> SlugMixin_save slugify_ascii 10 ?R tbl1 ?m2 = Inr (w2, tbl2)
       \<and> slug w2 = ''intro-2''"
    unfolding b by simp
  let ?e = "new_module 9 [] (Some 1)"
  have pe: "slug ?e = [] \<and> name ?e = []" by (simp add: new_module_def)
  have ne: "\<not> (?R (?e\<lparr>updated_at := 9\<rparr>) \<or> list_ex (\<lambda>r. pk r \<noteq> pk ?e \<and> slug r = []) ?T)"
    unfolding R by (simp add: example_db_def new_module_def)
  from slug_assignment[where inst = ?e and slugify = slugify_ascii and tbl = ?T
      and now = 9 and refused = ?R,
      THEN conjunct2, THEN conjunct2, THEN conjunct1, THEN mp, OF pe, THEN conjunct2] ne
  have 5: "\<exists>w tbl'. save_module slugify_ascii 9 example_db ?e
                = Inr (w, tbl') \<and> w \<in> set tbl' \<and> slug w = []"
    unfolding save_module_def by (simp only: if_False)
  have pi: "slug intro_module \<noteq> []" by (simp add: intro_module_def)
  from slug_assignment[where inst = intro_module and slugify = slugify_ascii
      and tbl = "[intro_module]",
      THEN conjunct2, THEN conjunct2, THEN conjunct2, THEN mp, OF pi, THEN conjunct1]
  have 6: "assign_slug slugify_ascii [intro_module] intro_module = intro_module" .
  let ?L = "lesson_refused example_db"
  have L: "?L l \<longleftrightarrow> module l \<noteq> Some 1 \<and> module l \<noteq> Some 2 \<and> module l \<noteq> Some 3" for l
    by (cases "module l")
       (auto simp: lesson_refused_def references_def example_db_def)
  have al: "module ((assign_slug slugify_ascii tbl l)\<lparr>updated_at := t\<rparr>) = module l"
    for tbl t and l :: Lesson
    by (simp add: assign_slug_def Let_def)
  let ?s = "new_lesson 9 ''Setup'' (Some 2)"
  have ps: "slug ?s = [] \<and> name ?s \<noteq> []" by (simp add: new_lesson_def)
  have ns: "\<not> ?L ((assign_slug slugify_ascii (lessons example_db) ?s)\<lparr>updated_at := 9\<rparr>)"
    unfolding L al by (simp add: new_lesson_def)
  from slug_assignment[where inst = ?s and slugify = slugify_ascii
      and tbl = "lessons example_db" and now = 9 and refused = ?L,
      THEN conjunct1, THEN mp, OF ps, THEN conjunct2, THEN conjunct2, THEN conjunct2] ns
  have "\<exists>w tbl'. SlugMixin_save slugify_ascii 9 ?L (lessons example_db) ?s = Inr (w, tbl')
         \<and> w \<in> set tbl' \<and> slug w = slug (assign_slug slugify_ascii (lessons example_db) ?s)"
    by (simp only: if_False)
  then have 7: "\<exists>w tbl'. save_lesson slugify_ascii 9 example_db ?s
                = Inr (w, tbl') \<and> w \<in> set tbl' \<and> slug w = ''setup-3''"
    unfolding save_lesson_def assign_Setup_example .
  let ?u = "new_lesson 9 ''Setup'' None"
  have pu: "slug ?u = [] \<and> name ?u \<noteq> []" by (simp add: new_lesson_def)
  have ru: "?L ((assign_slug slugify_ascii (lessons example_db) ?u)\<lparr>updated_at := 9\<rparr>)"
    unfolding L al by (simp add: new_lesson_def)
  from slug_assignment[where inst = ?u and slugify = slugify_ascii
      and tbl = "lessons example_db" and now = 9 and refused = ?L,
      THEN conjunct1, THEN mp, OF pu, THEN conjunct2, THEN conjunct2, THEN conjunct2] ru
  have 8: "save_lesson slugify_ascii 9 example_db ?u = Inl IntegrityError"
    unfolding save_lesson_def by (simp only: if_True)
  from 1 2 3 4 5 6 7 8 show ?thesis by blast
qed


subsection \<open>Default listing order\<close>

lemma model_ordering_values:
  "model_ordering ''Module'' = [''order'']" "model_ordering ''Lesson'' = [''order'']"
  "model_ordering ''Course'' = []" "model_ordering ''Tag'' = []" "model_ordering ''Topic'' = []"
  by (simp_all add: model_ordering_def resolve_meta_def ordering_of_meta_def declared_meta_def
      model_classes_def mixin_bases_def)

lemma default_ordering_order:
  "default_ordering flag [''order''] ''Module'' = [''order'']"
  "default_ordering flag [''order''] ''Lesson'' = [''order'']"
  by (simp_all add: default_ordering_def model_ordering_values)

lemma order_by_order:
  "sorted (map order (order_by [''order''] rows))" "mset (order_by [''order''] rows) = mset rows"
proof -
  have sv: "sort_value ''order'' = (\<lambda>r. int (order r))"
    by (rule ext) (simp add: sort_value_def field_value_def)
  have "sorted (map (\<lambda>r. int (order r)) (sort_key (\<lambda>r. int (order r)) rows))"
    by (rule sorted_sort_key)
  then show "sorted (map order (order_by [''order''] rows))"
    by (simp add: sv sorted_wrt_map sorted_map)
  show "mset (order_by [''order''] rows) = mset rows" by simp
qed

lemma order_by_created_desc:
  "sorted (rev (map created_at (order_by [''-created_at''] rows)))"
  "mset (order_by [''-created_at''] rows) = mset rows"
proof -
  have sv: "sort_value ''-created_at'' = (\<lambda>r. - int (created_at r))"
    by (rule ext) (simp add: sort_value_def field_value_def)
  let ?rows = "sort_key (\<lambda>r. - int (created_at r)) rows"
  have "sorted (map (\<lambda>r. - int (created_at r)) ?rows)"
    by (rule sorted_sort_key)
  then have "sorted_wrt (\<lambda>x y. created_at y \<le> created_at x) ?rows"
    by (simp add: sorted_map)
  then have "sorted_wrt (\<lambda>x y. y \<le> x) (map created_at ?rows)"
    by (simp add: sorted_wrt_map)
  then have "sorted (rev (map created_at ?rows))"
    by (simp add: sorted_wrt_rev)
  then show "sorted (rev (map created_at (order_by [''-created_at''] rows)))"
    by (simp add: sv)
  show "mset (order_by [''-created_at''] rows) = mset rows" by simp
qed

text \<open>
  C9, amended. Whether or not the ordering filter is installed, the default listing of
  modules and of lessons is ascending by the order key and holds exactly the rows of the
  queryset. With the ordering filter the default listing of courses is descending by
  creation time, not ascending by order key. (The order among rows with equal keys is the
  database's; no secondary key is given.)
\<close>

theorem default_listing_order:
  "sorted (map order (list_modules ordering_filter d course_pk))
   \<and> mset (list_modules ordering_filter d course_pk) = mset (module_queryset d course_pk)
   \<and> sorted (map order (list_lessons ordering_filter d module_pk))
   \<and> mset (list_lessons ordering_filter d module_pk) = mset (lesson_queryset d module_pk)
   \<and> sorted (rev (map created_at (list_courses True d)))
   \<and> mset (list_courses ordering_filter d) = mset (courses d)"
proof -
  have c: "mset (list_courses ordering_filter d) = mset (courses d)"
    by (simp add: list_courses_def default_ordering_def model_ordering_values)
  have m: "sorted (map order (list_modules ordering_filter d course_pk))"
    "mset (list_modules ordering_filter d course_pk) = mset (module_queryset d course_pk)"
    unfolding list_modules_def default_ordering_order by (rule order_by_order)+
  have l: "sorted (map order (list_lessons ordering_filter d module_pk))"
    "mset (list_lessons ordering_filter d module_pk) = mset (lesson_queryset d module_pk)"
    unfolding list_lessons_def default_ordering_order by (rule order_by_order)+
  have cs: "sorted (rev (map created_at (list_courses True d)))"
    unfolding list_courses_def default_ordering_def using order_by_created_desc(1)[of "courses d"]
    by simp
  from m l cs c show ?thesis by simp
qed

text \<open>
  C9, as stated, fails for courses. The three courses of \<open>example_db\<close> have the order keys
  1, 0, 2 in the order of their creation. With the ordering filter they are listed newest
  first, order keys 2, 0, 1; without it \<^verbatim>\<open>Course\<close> has no default ordering, since the
  \<^verbatim>\<open>Meta\<close> it inherits is the one of \<^verbatim>\<open>TimestampMixin\<close>, and they are listed as stored, order
  keys 1, 0, 2. Neither is ascending by order key.
\<close>

theorem course_listing_counterexample:
  "map order (list_courses True example_db) = [2, 0, 1]
   \<and> map order (list_courses False example_db) = [1, 0, 2]
   \<and> \<not> sorted (map order (list_courses True example_db))
   \<and> \<not> sorted (map order (list_courses False example_db))"
proof -
  have a: "map order (list_courses True example_db) = [2, 0, 1]"
    by (simp add: list_courses_def default_ordering_def sort_value_def field_value_def example_db_def
        django_course_def)
  have b: "map order (list_courses False example_db) = [1, 0, 2]"
    by (simp add: list_courses_def default_ordering_def model_ordering_values example_db_def
        django_course_def)
  show ?thesis unfolding a b by simp
qed


subsection \<open>Serializer output\<close>

lemma to_representation_keys:
  "to_representation get fs = Inr kvs \<Longrightarrow> map fst kvs = fs"
  by (induction fs arbitrary: kvs) (auto split: sum.splits)

lemma to_representation_lookup:
  "to_representation get fs = Inr kvs \<Longrightarrow> f \<in> set fs \<Longrightarrow> \<exists>v. get f = Inr v \<and> map_of kvs f = Some v"
  by (induction fs arbitrary: kvs) (auto split: sum.splits)

lemma to_representation_total:
  "(\<And>f. f \<in> set fs \<Longrightarrow> \<exists>v. get f = Inr v) \<Longrightarrow> \<exists>kvs. to_representation get fs = Inr kvs"
proof (induction fs)
  case Nil
  then show ?case by simp
next
  case (Cons a fs)
  then obtain v where "get a = Inr v" by force
  moreover from Cons obtain kvs where "to_representation get fs = Inr kvs" by force
  ultimately show ?case by simp
qed

lemma many_results:
  "many ser xs = Inr js \<Longrightarrow> j \<in> set js \<Longrightarrow> \<exists>x \<in> set xs. ser x = Inr j"
  by (induction xs arbitrary: js) (auto split: sum.splits)

lemma LessonSerializer_keys:
  "LessonSerializer tbl inst = Inr j \<Longrightarrow> obj_keys j = LessonSerializer_fields"
  by (auto simp: LessonSerializer_def obj_keys_def map_sum_def dest: to_representation_keys
      split: sum.splits)

lemma ModuleSerializer_lessons:
  assumes "ModuleSerializer tbl inst = Inr j" and "lj \<in> set (list_items (obj_get j ''lessons''))"
  shows "obj_keys lj = LessonSerializer_fields"
proof -
  let ?get = "\<lambda>f. if f = ''lessons'' then map_sum id JList (many (LessonSerializer tbl) (snd inst))
               else getattr (module_attrs (fst inst)) f"
  from assms(1) obtain kvs where kvs: "to_representation ?get ModuleSerializer_fields = Inr kvs"
    and j: "j = JObj kvs"
    by (auto simp: ModuleSerializer_def map_sum_def split: sum.splits)
  have "''lessons'' \<in> set ModuleSerializer_fields" by (simp add: ModuleSerializer_fields_def)
  from to_representation_lookup[OF kvs this]
  obtain v where v: "?get ''lessons'' = Inr v" "map_of kvs ''lessons'' = Some v" by blast
  from v(1) obtain ljs where ljs: "many (LessonSerializer tbl) (snd inst) = Inr ljs" "v = JList ljs"
    by (auto simp: map_sum_def split: sum.splits)
  from assms(2) j v(2) ljs(2) have "lj \<in> set ljs" by (simp add: obj_get_def list_items_def)
  from many_results[OF ljs(1) this] obtain x where "LessonSerializer tbl x = Inr lj" by blast
  then show ?thesis by (rule LessonSerializer_keys)
qed

lemma CourseSerializer_lessons:
  assumes "CourseSerializer d req obj = Inr j" and "lj \<in> set (nested_lessons j)"
  shows "obj_keys lj = LessonSerializer_fields"
proof -
  from assms(1) obtain get kvs where kvs: "to_representation get CourseSerializer_fields = Inr kvs"
    and j: "j = JObj kvs"
    and get: "get ''modules''
       = map_sum id JList (many (ModuleSerializer (lessons d)) (prefetch_modules d obj))"
    by (auto simp: CourseSerializer_def map_sum_def split: sum.splits)
  have "''modules'' \<in> set CourseSerializer_fields" by (simp add: CourseSerializer_fields_def)
  from to_representation_lookup[OF kvs this]
  obtain v where v: "get ''modules'' = Inr v" "map_of kvs ''modules'' = Some v" by blast
  from v(1) get obtain mjs
    where mjs: "many (ModuleSerializer (lessons d)) (prefetch_modules d obj) = Inr mjs" "v = JList mjs"
    by (auto simp: map_sum_def split: sum.splits)
  from assms(2) j v(2) mjs(2)
  obtain mj where mj: "mj \<in> set mjs" "lj \<in> set (list_items (obj_get mj ''lessons''))"
    by (auto simp: nested_lessons_def obj_get_def list_items_def)
  from many_results[OF mjs(1) mj(1)]
  obtain x where "ModuleSerializer (lessons d) x = Inr mj" by blast
  from ModuleSerializer_lessons[OF this mj(2)] show ?thesis .
qed

text \<open>
  C7, amended. In the full shape of a course every nested lesson carries the eight fields
  of \<^verbatim>\<open>LessonSerializer\<close>: id, name, slug, content, duration_seconds, order, created_at and
  updated_at, in this order. The restriction to id, name, slug and order in the prefetch
  only defers the loading of the other columns.
\<close>

theorem nested_lesson_fields:
  assumes "retrieve_course d req k = Inr j"
  shows "\<forall>lj \<in> set (nested_lessons j).
           obj_keys lj = [''id'', ''name'', ''slug'', ''content'', ''duration_seconds'', ''order'',
                          ''created_at'', ''updated_at'']"
proof
  fix lj assume lj: "lj \<in> set (nested_lessons j)"
  from assms obtain obj where "CourseSerializer d (Some req) obj = Inr j"
    by (auto simp: retrieve_course_def split: sum.splits)
  from CourseSerializer_lessons[OF this lj]
  show "obj_keys lj = [''id'', ''name'', ''slug'', ''content'', ''duration_seconds'', ''order'',
                          ''created_at'', ''updated_at'']"
    by (simp add: LessonSerializer_fields_def)
qed

lemma prefetch_example:
  "map (\<lambda>(m, ls). (pk m, map lesson_pk ls)) (prefetch_modules example_db django_course)
     = [(Some 1, [Some 1, Some 2]), (Some 2, [Some 3])]"
  by (simp add: prefetch_modules_def model_ordering_values sort_value_def field_value_def
      example_db_def django_course_def only_def)

lemma retrieve_example_keys:
  "map_sum id (\<lambda>j. map obj_keys (nested_lessons j))
       (retrieve_course example_db \<lparr>request_user = None\<rparr> 1)
     = Inr (replicate 3 [''id'', ''name'', ''slug'', ''content'', ''duration_seconds'', ''order'',
                          ''created_at'', ''updated_at''])"
  by (simp add: retrieve_course_def get_object_def CourseSerializer_def CourseSerializer_fields_def
      ModuleSerializer_def ModuleSerializer_fields_def LessonSerializer_def LessonSerializer_fields_def
      UserSerializer_def UserSerializer_fields_def prefetch_modules_def model_ordering_values
      sort_value_def field_value_def example_db_def django_course_def only_def lesson_getattr_def
      getattr_def lesson_attrs_def module_attrs_def course_attrs_def user_attrs_def json_pk_def
      related_pks_def get_completion_rate_def total_lessons_def nested_lessons_def obj_get_def
      obj_keys_def list_items_def numeral_3_eq_3)

text \<open>
  C7, as stated, fails on the code: the full shape of course 1 of \<open>example_db\<close> nests three
  lessons, each with all eight fields, and \<open>content\<close> is output with its value.
\<close>

theorem nested_lesson_fields_counterexample:
  "map_sum id (\<lambda>j. map obj_keys (nested_lessons j))
       (retrieve_course example_db \<lparr>request_user = None\<rparr> 1)
     = Inr [[''id'', ''name'', ''slug'', ''content'', ''duration_seconds'', ''order'',
             ''created_at'', ''updated_at''],
            [''id'', ''name'', ''slug'', ''content'', ''duration_seconds'', ''order'',
             ''created_at'', ''updated_at''],
            [''id'', ''name'', ''slug'', ''content'', ''duration_seconds'', ''order'',
             ''created_at'', ''updated_at'']]
   \<and> map_sum id (\<lambda>j. map (\<lambda>lj. obj_get lj ''content'') (nested_lessons j))
       (retrieve_course example_db \<lparr>request_user = None\<rparr> 1)
     = Inr [JStr ''Install'', JStr ''Hello'', JStr ''Fields'']"
proof -
  have "map_sum id (\<lambda>j. map (\<lambda>lj. obj_get lj ''content'') (nested_lessons j))
       (retrieve_course example_db \<lparr>request_user = None\<rparr> 1)
     = Inr [JStr ''Install'', JStr ''Hello'', JStr ''Fields'']"
    by (simp add: retrieve_course_def get_object_def CourseSerializer_def CourseSerializer_fields_def
      ModuleSerializer_def ModuleSerializer_fields_def LessonSerializer_def LessonSerializer_fields_def
      UserSerializer_def UserSerializer_fields_def prefetch_modules_def model_ordering_values
      sort_value_def field_value_def example_db_def django_course_def only_def lesson_getattr_def
      getattr_def lesson_attrs_def module_attrs_def course_attrs_def user_attrs_def json_pk_def
      related_pks_def get_completion_rate_def total_lessons_def nested_lessons_def obj_get_def
      list_items_def)
  with retrieve_example_keys show ?thesis by (simp add: numeral_3_eq_3)
qed

text \<open>The amended claim on the same response.\<close>

theorem nested_lesson_fields_witness:
  "\<exists>j. retrieve_course example_db \<lparr>request_user = None\<rparr> 1 = Inr j
       \<and> length (nested_lessons j) = 3
       \<and> list_all (\<lambda>lj. obj_keys lj = [''id'', ''name'', ''slug'', ''content'', ''duration_seconds'',
                                          ''order'', ''created_at'', ''updated_at''])
            (nested_lessons j)"
proof -
  from retrieve_example_keys obtain j where
    j: "retrieve_course example_db \<lparr>request_user = None\<rparr> 1 = Inr j"
    and n: "map obj_keys (nested_lessons j)
       = replicate 3 [''id'', ''name'', ''slug'', ''content'', ''duration_seconds'', ''order'',
                          ''created_at'', ''updated_at'']"
    by (cases "retrieve_course example_db \<lparr>request_user = None\<rparr> 1") auto
  from n have "length (map obj_keys (nested_lessons j)) = 3" by simp
  then have l: "length (nested_lessons j) = 3" by simp
  from nested_lesson_fields[OF j] l j show ?thesis by (auto simp: list_all_iff)
qed


subsection \<open>Dynamic field selection\<close>

lemma fold_removeAll: "fold removeAll ds xs = filter (\<lambda>x. x \<notin> set ds) xs"
  by (induction ds arbitrary: xs) (auto simp: removeAll_filter_not_eq intro: filter_cong)

lemma dynamic_init_filter:
  "names \<noteq> [] \<Longrightarrow>
     CourseDynamicSerializer_init (Some names)
       = filter (\<lambda>f. f \<in> set names) CourseDynamicSerializer_fields"
  by (simp add: CourseDynamicSerializer_init_def Let_def fold_removeAll) (rule filter_cong, auto)

lemma dynamic_pop_order:
  assumes "set ds = set CourseDynamicSerializer_fields - set names"
  shows "fold removeAll ds CourseDynamicSerializer_fields
       = filter (\<lambda>f. f \<in> set names) CourseDynamicSerializer_fields"
  unfolding fold_removeAll using assms by (intro filter_cong) auto

lemma dynamic_total:
  assumes "set fs \<subseteq> set CourseDynamicSerializer_fields"
  shows "\<exists>kvs. to_representation
          (\<lambda>f. if f = ''modules'' then
                 Inr (JList (map (\<lambda>m. json_pk (pk m))
                        (order_by (model_ordering ''Module'')
                           (filter (\<lambda>m. Module.course m = pk obj \<and> Module.course m \<noteq> None) (modules d)))))
               else getattr (course_attrs obj) f) fs = Inr kvs"
proof (rule to_representation_total)
  fix f assume "f \<in> set fs"
  with assms have "f \<in> set CourseDynamicSerializer_fields" by blast
  then show "\<exists>v. (if f = ''modules'' then
                 Inr (JList (map (\<lambda>m. json_pk (pk m))
                        (order_by (model_ordering ''Module'')
                           (filter (\<lambda>m. Module.course m = pk obj \<and> Module.course m \<noteq> None) (modules d)))))
               else getattr (course_attrs obj) f) = Inr v"
    by (auto simp: CourseDynamicSerializer_fields_def getattr_def course_attrs_def)
qed

lemma dynamic_keys:
  assumes "set (CourseDynamicSerializer_init requested) \<subseteq> set CourseDynamicSerializer_fields"
  shows "\<exists>j. CourseDynamicSerializer d requested obj = Inr j
           \<and> obj_keys j = CourseDynamicSerializer_init requested"
proof -
  from dynamic_total[OF assms, of obj d] obtain kvs where
    kvs: "to_representation
          (\<lambda>f. if f = ''modules'' then
                 Inr (JList (map (\<lambda>m. json_pk (pk m))
                        (order_by (model_ordering ''Module'')
                           (filter (\<lambda>m. Module.course m = pk obj \<and> Module.course m \<noteq> None) (modules d)))))
               else getattr (course_attrs obj) f) (CourseDynamicSerializer_init requested) = Inr kvs"
    by blast
  from to_representation_keys[OF kvs] kvs show ?thesis
    by (simp add: CourseDynamicSerializer_def obj_keys_def)
qed

text \<open>
  C8. For every non-empty list of requested names the dynamic shape of a course succeeds
  and outputs exactly the declared fields id, name, slug, description, modules that were
  requested, in their declared order: the intersection of the two sets. A requested name
  outside the declared fields is absent from the output and raises no error.
\<close>

theorem dynamic_fields_intersection:
  assumes "names \<noteq> []"
  shows "\<exists>j. CourseDynamicSerializer d (Some names) obj = Inr j
           \<and> obj_keys j
               = filter (\<lambda>f. f \<in> set names) [''id'', ''name'', ''slug'', ''description'', ''modules'']
           \<and> set (obj_keys j)
               = {''id'', ''name'', ''slug'', ''description'', ''modules''} \<inter> set names"
proof -
  have sub: "set (CourseDynamicSerializer_init (Some names)) \<subseteq> set CourseDynamicSerializer_fields"
    by (simp add: dynamic_init_filter[OF assms])
  from dynamic_keys[OF sub, of d obj] obtain j where
    j: "CourseDynamicSerializer d (Some names) obj = Inr j"
       "obj_keys j = CourseDynamicSerializer_init (Some names)" by blast
  have k: "obj_keys j
      = filter (\<lambda>f. f \<in> set names) [''id'', ''name'', ''slug'', ''description'', ''modules'']"
    using j(2) by (simp only: dynamic_init_filter[OF assms] CourseDynamicSerializer_fields_def)
  have "set (obj_keys j) = {''id'', ''name'', ''slug'', ''description'', ''modules''} \<inter> set names"
    unfolding k by auto
  with j(1) k show ?thesis by blast
qed

text \<open>
  Requesting name, slug and created_at, or name and slug only, gives exactly name and slug.
\<close>

theorem dynamic_fields_intersection_witness:
  "(\<exists>j. CourseDynamicSerializer example_db (Some [''name'', ''slug'', ''created_at'']) django_course
            = Inr j \<and> obj_keys j = [''name'', ''slug''])
   \<and> (\<exists>j. CourseDynamicSerializer example_db (Some [''name'', ''slug'']) django_course
            = Inr j \<and> obj_keys j = [''name'', ''slug''])"
proof -
  have ne: "[''name'', ''slug'', ''created_at''] \<noteq> []" "[''name'', ''slug''] \<noteq> []" by simp_all
  from dynamic_fields_intersection[OF ne(1), of example_db django_course]
  have a: "\<exists>j. CourseDynamicSerializer example_db (Some [''name'', ''slug'', ''created_at''])
              django_course = Inr j \<and> obj_keys j = [''name'', ''slug'']"
    by simp blast
  from dynamic_fields_intersection[OF ne(2), of example_db django_course]
  have b: "\<exists>j. CourseDynamicSerializer example_db (Some [''name'', ''slug'']) django_course
              = Inr j \<and> obj_keys j = [''name'', ''slug'']"
    by simp blast
  from a b show ?thesis by simp
qed

text \<open>
  C10. An empty list of requested names is treated like no selection: no field is removed
  and the output has the five declared fields id, name, slug, description and modules.
\<close>

theorem dynamic_fields_empty_request:
  "CourseDynamicSerializer d (Some []) obj = CourseDynamicSerializer d None obj
   \<and> (\<exists>j. CourseDynamicSerializer d (Some []) obj = Inr j
          \<and> obj_keys j = [''id'', ''name'', ''slug'', ''description'', ''modules''])"
proof -
  have i: "CourseDynamicSerializer_init (Some []) = CourseDynamicSerializer_fields"
    "CourseDynamicSerializer_init None = CourseDynamicSerializer_fields"
    by (simp_all add: CourseDynamicSerializer_init_def)
  have e: "CourseDynamicSerializer d (Some []) obj = CourseDynamicSerializer d None obj"
    by (simp add: CourseDynamicSerializer_def i)
  from dynamic_keys[of "Some []" d obj] i(1)
  have "\<exists>j. CourseDynamicSerializer d (Some []) obj = Inr j
          \<and> obj_keys j = [''id'', ''name'', ''slug'', ''description'', ''modules'']"
    by (simp add: CourseDynamicSerializer_fields_def)
  with e show ?thesis by simp
qed

end
